theory Spec2Isabelle
  imports Main
begin

section \<open>Python strings\<close>

text \<open>
  A Python \<open>str\<close> is modelled as a \<open>string\<close>, one \<open>char\<close> per code point. The model
  is exact on ASCII text; a character above 127 is an opaque symbol: it is neither white
  space, nor a letter, nor a line boundary, and \<open>upper\<close> leaves it unchanged.
\<close>

definition LF :: char where "LF = CHR 0x0A"
definition CR :: char where "CR = CHR 0x0D"
definition TAB :: char where "TAB = CHR 0x09"

text \<open>\<open>str.isspace\<close> on one ASCII character: code points 9..13, 28..31 and 32.\<close>

definition isspace :: "char \<Rightarrow> bool" where
  "isspace c = ((9 \<le> (of_char c :: nat) \<and> (of_char c :: nat) \<le> 13)
              \<or> (28 \<le> (of_char c :: nat) \<and> (of_char c :: nat) \<le> 32))"

text \<open>The line boundaries of \<open>str.splitlines\<close>: \<open>\n \r \v \f \x1c \x1d \x1e\<close> (and \<open>\r\n\<close>).\<close>

definition is_linebreak :: "char \<Rightarrow> bool" where
  "is_linebreak c = ((10 \<le> (of_char c :: nat) \<and> (of_char c :: nat) \<le> 13)
              \<or> (28 \<le> (of_char c :: nat) \<and> (of_char c :: nat) \<le> 30))"

definition strip :: "string \<Rightarrow> string" where
  "strip s = rev (dropWhile isspace (rev (dropWhile isspace s)))"

definition upper_char :: "char \<Rightarrow> char" where
  "upper_char c = (if 97 \<le> (of_char c :: nat) \<and> (of_char c :: nat) \<le> 122
                   then char_of ((of_char c :: nat) - 32) else c)"

definition upper :: "string \<Rightarrow> string" where
  "upper s = map upper_char s"

definition startswith :: "string \<Rightarrow> string \<Rightarrow> bool" where
  "startswith s p = (take (length p) s = p)"

definition endswith :: "string \<Rightarrow> string \<Rightarrow> bool" where
  "endswith s p = (length p \<le> length s \<and> drop (length s - length p) s = p)"

text \<open>\<open>sub in s\<close>: \<open>sub\<close> occurs in \<open>s\<close> as a contiguous substring.\<close>

fun contains :: "string \<Rightarrow> string \<Rightarrow> bool" where
  "contains [] sub = (sub = [])"
| "contains (c # s) sub = (startswith (c # s) sub \<or> contains s sub)"

text \<open>
  \<open>s.splitlines()\<close>: the text is cut at every line boundary, \<open>\r\n\<close> counting as one;
  the boundaries are not kept, and a text that ends in a boundary has no empty last line.
  The first argument is the line read so far.
\<close>

fun splitlines_from :: "string \<Rightarrow> string \<Rightarrow> string list" where
  "splitlines_from cur [] = (if cur = [] then [] else [cur])"
| "splitlines_from cur [c] = (if is_linebreak c then [cur] else [cur @ [c]])"
| "splitlines_from cur (c # d # s) =
     (if c = CR \<and> d = LF then cur # splitlines_from [] s
      else if is_linebreak c then cur # splitlines_from [] (d # s)
      else splitlines_from (cur @ [c]) (d # s))"

definition splitlines :: "string \<Rightarrow> string list" where
  "splitlines s = splitlines_from [] s"

text \<open>\<open>sep.join(xs)\<close>.\<close>

fun join :: "string \<Rightarrow> string list \<Rightarrow> string" where
  "join sep [] = []"
| "join sep [x] = x"
| "join sep (x # y # xs) = x @ sep @ join sep (y # xs)"

text \<open>\<open>s.split(" ", 1)[0]\<close>: the text before the first space (all of it when there is none).\<close>

definition first_word :: "string \<Rightarrow> string" where
  "first_word s = takeWhile (\<lambda>c. c \<noteq> CHR '' '') s"

section \<open>Query Sanitizer (execute_sparql, the line filter)\<close>

definition allowed_keywords :: "string list" where
  "allowed_keywords =
     [''PREFIX'', ''SELECT'', ''ASK'', ''CONSTRUCT'', ''DESCRIBE'', ''INSERT'',
      ''FILTER'', ''BIND'', ''VALUES'', ''OPTIONAL'', ''UNION'', ''GRAPH'',
      ''SERVICE'', ''MINUS'', ''WHERE'', ''GROUP'', ''HAVING'', ''ORDER'',
      ''LIMIT'', ''OFFSET'', ''DATA'']"

definition is_likely_triple_pattern :: "string \<Rightarrow> bool" where
  "is_likely_triple_pattern stripped_line =
     ((contains stripped_line ''wd:'' \<or> contains stripped_line ''wdt:''
       \<or> contains stripped_line ''rdf:'' \<or> contains stripped_line '':''
       \<or> contains stripped_line ''?'')
      \<and> endswith stripped_line ''.'')"

definition has_structural_char :: "string \<Rightarrow> bool" where
  "has_structural_char stripped_line =
     (\<exists>c \<in> set [''{'', ''}'', '';'', '',''] . contains stripped_line c)"

text \<open>The body of the loop over the lines: is \<open>line_content\<close> appended or skipped?\<close>

definition keeps_line :: "string \<Rightarrow> bool" where
  "keeps_line line_content =
     (let stripped_line = strip line_content in
      if stripped_line = [] \<or> startswith stripped_line ''#'' then False
      else if first_word (upper stripped_line) \<in> set allowed_keywords then True
      else if has_structural_char stripped_line then True
      else if is_likely_triple_pattern stripped_line then True
      else False)"

definition filtered_query_lines :: "string \<Rightarrow> string list" where
  "filtered_query_lines sparql_query = filter keeps_line (splitlines sparql_query)"

definition processed_query :: "string \<Rightarrow> string" where
  "processed_query sparql_query = join [LF] (filtered_query_lines sparql_query)"

section \<open>Prefix Injector (execute_sparql, the prefix block)\<close>

text \<open>The triple-quoted literal \<open>prefixes\<close>, with the indentation it has in the source.\<close>

definition prefixes :: string where
  "prefixes = [LF]
     @ ''            PREFIX wd: <http://www.wikidata.org/entity/>'' @ [LF]
     @ ''            PREFIX wdt: <http://www.wikidata.org/prop/direct/>'' @ [LF]
     @ ''            PREFIX p: <http://www.wikidata.org/prop/>'' @ [LF]
     @ ''            PREFIX ps: <http://www.wikidata.org/prop/statement/>'' @ [LF]
     @ ''            PREFIX wikibase: <http://wikiba.se/ontology#>'' @ [LF]
     @ ''            PREFIX bd: <http://www.bigdata.com/rdf#>'' @ [LF]
     @ ''            ''"

text \<open>\<open>line.strip().upper().startswith("PREFIX")\<close>.\<close>

definition starts_with_prefix :: "string \<Rightarrow> bool" where
  "starts_with_prefix line = startswith (upper (strip line)) ''PREFIX''"

definition has_non_prefix_lines :: "string list \<Rightarrow> bool" where
  "has_non_prefix_lines lines =
     (\<exists>line \<in> set lines. strip line \<noteq> [] \<and> \<not> starts_with_prefix line)"

definition inject_prefixes :: "string list \<Rightarrow> string" where
  "inject_prefixes lines =
     (if join [LF] lines \<noteq> [] \<and> has_non_prefix_lines lines
         \<and> \<not> (\<exists>line \<in> set lines. starts_with_prefix line)
      then strip prefixes @ [LF] @ join [LF] lines
      else join [LF] lines)"

definition full_query :: "string \<Rightarrow> string" where
  "full_query sparql_query = inject_prefixes (filtered_query_lines sparql_query)"

section \<open>JSON values and json.dumps\<close>

text \<open>
  The values that \<open>json.dumps\<close> receives here: \<open>None\<close>, booleans, integers, strings, lists
  and dictionaries with string keys (in insertion order). Floating-point numbers are not
  modelled.
\<close>

datatype json =
    JNull
  | JBool bool
  | JInt int
  | JString string
  | JArray "json list"
  | JObject "(string \<times> json) list"

definition digit_char :: "nat \<Rightarrow> char" where
  "digit_char n = char_of (48 + n)"

fun str_nat :: "nat \<Rightarrow> string" where
  "str_nat n = (if n < 10 then [digit_char n] else str_nat (n div 10) @ [digit_char (n mod 10)])"

declare str_nat.simps [simp del]

definition str_int :: "int \<Rightarrow> string" where
  "str_int i = (if i < 0 then ''-'' @ str_nat (nat (- i)) else str_nat (nat i))"

definition hex_digit :: "nat \<Rightarrow> char" where
  "hex_digit n = (if n < 10 then char_of (48 + n) else char_of (87 + n))"

text \<open>
  One character of a string under \<open>ensure_ascii\<close>: the quote and the backslash are
  escaped, the five short escapes are used, every other character outside \<open>' '..'~'\<close> is
  written \<open>\uXXXX\<close> with lower-case hexadecimal digits.
\<close>

definition escape_char :: "char \<Rightarrow> string" where
  "escape_char c =
     (if c = CHR 0x22 then [CHR 0x5C, CHR 0x22]
      else if c = CHR 0x5C then [CHR 0x5C, CHR 0x5C]
      else if c = CHR 0x0A then [CHR 0x5C, CHR ''n'']
      else if c = CHR 0x0D then [CHR 0x5C, CHR ''r'']
      else if c = CHR 0x09 then [CHR 0x5C, CHR ''t'']
      else if c = CHR 0x08 then [CHR 0x5C, CHR ''b'']
      else if c = CHR 0x0C then [CHR 0x5C, CHR ''f'']
      else if 32 \<le> (of_char c :: nat) \<and> (of_char c :: nat) \<le> 126 then [c]
      else [CHR 0x5C, CHR ''u'', CHR ''0'', CHR ''0'',
            hex_digit ((of_char c :: nat) div 16), hex_digit ((of_char c :: nat) mod 16)])"

definition dumps_str :: "string \<Rightarrow> string" where
  "dumps_str s = [CHR 0x22] @ concat (map escape_char s) @ [CHR 0x22]"

fun json_dumps :: "json \<Rightarrow> string" where
  "json_dumps JNull = ''null''"
| "json_dumps (JBool b) = (if b then ''true'' else ''false'')"
| "json_dumps (JInt i) = str_int i"
| "json_dumps (JString s) = dumps_str s"
| "json_dumps (JArray xs) = ''['' @ join '', '' (map json_dumps xs) @ '']''"
| "json_dumps (JObject kvs) =
     ''{'' @ join '', '' (map (\<lambda>(k, v). dumps_str k @ '': '' @ json_dumps v) kvs) @ ''}''"

text \<open>\<open>d.get(key)\<close> on a parsed value: \<open>None\<close> when it is no dictionary or has no such key.\<close>

fun dict_get :: "json \<Rightarrow> string \<Rightarrow> json option" where
  "dict_get (JObject kvs) key = map_of kvs key"
| "dict_get _ key = None"

section \<open>SPARQL Executor (execute_sparql, the retry loop)\<close>

text \<open>
  An exception raised inside the \<open>try\<close> block: the \<open>except\<close> clause that catches it,
  \<open>type(e).__name__\<close>, \<open>str(e)\<close> and \<open>traceback.format_exc()\<close>.
\<close>

datatype exn_class = Timeout | ConnectionError | QueryBadFormed | OtherException

record exn =
  caught_as :: exn_class
  type_name :: string
  message :: string
  traceback :: string

text \<open>
  The remote endpoint, as a stub: what the call number \<open>n\<close> (from 0) does with the query
  text it is sent, either raising or returning the converted result.
\<close>

type_synonym endpoint = "nat \<Rightarrow> string \<Rightarrow> exn + json"

text \<open>
  One invocation: the value handed to \<open>json.dumps\<close> and returned, the arguments of the
  calls of \<open>time.sleep\<close> in order, and the number of calls of the endpoint.
\<close>

record run =
  outcome :: json
  sleeps :: "nat list"
  attempts :: nat

definition MAX_RETRIES :: nat where "MAX_RETRIES = 3"
definition INITIAL_BACKOFF :: nat where "INITIAL_BACKOFF = 1"

definition attempt_label :: "nat \<Rightarrow> string" where
  "attempt_label attempt = ''(attempt '' @ str_nat (attempt + 1) @ ''/'' @ str_nat MAX_RETRIES @ '')''"

definition error_details :: "string \<Rightarrow> string \<Rightarrow> exn \<Rightarrow> json" where
  "error_details error sparql_query e =
     JObject [(''error'', JString error),
              (''query'', JString sparql_query),
              (''error_type'', JString (type_name e)),
              (''traceback'', JString (traceback e))]"

definition final_error_details :: "string \<Rightarrow> json" where
  "final_error_details sparql_query =
     JObject [(''error'', JString ''Max retries reached. Failed to execute SPARQL query.''),
              (''query'', JString sparql_query),
              (''error_type'', JString ''MaxRetriesExceeded'')]"

function attempt_loop :: "endpoint \<Rightarrow> string \<Rightarrow> nat \<Rightarrow> nat \<Rightarrow> nat list \<Rightarrow> run" where
  "attempt_loop ep sparql_query attempt backoff_time slept =
     (if attempt < MAX_RETRIES then
        (case ep attempt (full_query sparql_query) of
           Inr results \<Rightarrow>
             \<lparr>outcome = results, sleeps = slept, attempts = attempt + 1\<rparr>
         | Inl e \<Rightarrow>
             (case caught_as e of
                QueryBadFormed \<Rightarrow>
                  \<lparr>outcome = error_details (''SPARQL Query Syntax Error: '' @ message e) sparql_query e,
                   sleeps = slept, attempts = attempt + 1\<rparr>
              | OtherException \<Rightarrow>
                  (if attempt < MAX_RETRIES - 1
                   then attempt_loop ep sparql_query (attempt + 1) (backoff_time * 2) (slept @ [backoff_time])
                   else \<lparr>outcome = error_details
                            (''An unexpected error occurred '' @ attempt_label attempt @ '': '' @ message e)
                            sparql_query e,
                         sleeps = slept, attempts = attempt + 1\<rparr>)
              | _ \<Rightarrow>
                  (if attempt < MAX_RETRIES - 1
                   then attempt_loop ep sparql_query (attempt + 1) (backoff_time * 2) (slept @ [backoff_time])
                   else \<lparr>outcome = error_details
                            (''Error executing query '' @ attempt_label attempt @ '': '' @ message e)
                            sparql_query e,
                         sleeps = slept, attempts = attempt + 1\<rparr>)))
      else \<lparr>outcome = final_error_details sparql_query, sleeps = slept, attempts = attempt\<rparr>)"
  by pat_completeness auto
termination
  by (relation "measure (\<lambda>(ep, q, attempt, b, s). MAX_RETRIES - attempt)") auto

declare attempt_loop.simps [simp del]

definition execute_sparql_run :: "endpoint \<Rightarrow> string \<Rightarrow> run" where
  "execute_sparql_run ep sparql_query = attempt_loop ep sparql_query 0 INITIAL_BACKOFF []"

definition execute_sparql :: "endpoint \<Rightarrow> string \<Rightarrow> string" where
  "execute_sparql ep sparql_query = json_dumps (outcome (execute_sparql_run ep sparql_query))"

subsection \<open>Stub endpoints\<close>

definition connection_refused :: exn where
  "connection_refused = \<lparr>caught_as = ConnectionError, type_name = ''ConnectionError'',
                          message = ''connection refused'', traceback = ''Traceback''\<rparr>"

definition timed_out :: exn where
  "timed_out = \<lparr>caught_as = Timeout, type_name = ''Timeout'',
                 message = ''timed out'', traceback = ''Traceback''\<rparr>"


definition ask_true :: json where
  "ask_true = JObject [(''head'', JObject []), (''boolean'', JBool True)]"

text \<open>Fails twice with a connection error, then succeeds.\<close>

definition failing_twice :: endpoint where
  "failing_twice n q = (if n < 2 then Inl connection_refused else Inr ask_true)"

definition always_timeout :: endpoint where
  "always_timeout n q = Inl timed_out"


definition ask_query :: string where
  "ask_query = ''ASK { wd:Q42 ?p ?o . }''"

subsection \<open>The retention rule in the words of the specification\<close>

text \<open>
  Rule (a) of the specification reads the first white-space-delimited token of the line.
\<close>

definition spec_first_token :: "string \<Rightarrow> string" where
  "spec_first_token s = takeWhile (\<lambda>c. \<not> isspace c) (dropWhile isspace s)"

definition spec_retains :: "string \<Rightarrow> bool" where
  "spec_retains line =
     (strip line \<noteq> [] \<and> \<not> startswith (strip line) ''#''
      \<and> (upper (spec_first_token line) \<in> set allowed_keywords
         \<or> has_structural_char line
         \<or> is_likely_triple_pattern (strip line)))"

definition limit_with_tab :: string where
  "limit_with_tab = ''LIMIT'' @ [TAB] @ ''10''"

definition select_with_tab_limit :: string where
  "select_with_tab_limit = ''SELECT ?x WHERE { ?x wdt:P31 wd:Q5 . }'' @ [LF] @ limit_with_tab"

definition standard_prefix_lines :: "string list" where
  "standard_prefix_lines =
     [''PREFIX wd: <http://www.wikidata.org/entity/>'',
      ''            PREFIX wdt: <http://www.wikidata.org/prop/direct/>'',
      ''            PREFIX p: <http://www.wikidata.org/prop/>'',
      ''            PREFIX ps: <http://www.wikidata.org/prop/statement/>'',
      ''            PREFIX wikibase: <http://wikiba.se/ontology#>'',
      ''            PREFIX bd: <http://www.bigdata.com/rdf#>'']"

definition prefixed_query :: string where
  "prefixed_query = ''PREFIX wd: <http://www.wikidata.org/entity/>'' @ [LF] @ ''ASK { wd:Q42 ?p ?o . }''"

section \<open>Regular expressions (re.search)\<close>

text \<open>
  The patterns of the Validator use literals, character classes, sequence, alternation,
  repetition, the negative look-ahead \<open>(?!r)\<close> and \<open>$\<close>. An atom matches one character
  that satisfies a predicate.
\<close>

datatype rx =
    Eps
  | Atom "char \<Rightarrow> bool"
  | Seq rx rx
  | Alt rx rx
  | Star rx
  | NotAhead rx
  | Dollar

text \<open>
  \<open>star_ends f n s\<close>: the texts that can remain after any number of matches of a pattern
  whose remainders are given by \<open>f\<close>, each match consuming at least one character; \<open>n\<close>
  bounds the number of matches and is taken to be the length of \<open>s\<close>.
\<close>

fun star_ends :: "(string \<Rightarrow> string list) \<Rightarrow> nat \<Rightarrow> string \<Rightarrow> string list" where
  "star_ends f 0 s = [s]"
| "star_ends f (Suc n) s =
     s # concat (map (star_ends f n) (filter (\<lambda>t. length t < length s) (f s)))"

text \<open>
  \<open>ends r s\<close>: the texts that remain after each way of matching \<open>r\<close> at the start of \<open>s\<close>
  (all the ways a backtracking matcher can reach). \<open>$\<close> is the one without
  \<open>re.MULTILINE\<close>: the end of the text, or just before a newline that ends it.
\<close>

primrec ends :: "rx \<Rightarrow> string \<Rightarrow> string list" where
  "ends Eps = (\<lambda>s. [s])"
| "ends (Atom p) = (\<lambda>s. case s of [] \<Rightarrow> [] | c # t \<Rightarrow> if p c then [t] else [])"
| "ends (Seq a b) = (\<lambda>s. concat (map (ends b) (ends a s)))"
| "ends (Alt a b) = (\<lambda>s. ends a s @ ends b s)"
| "ends (Star r) = (\<lambda>s. star_ends (ends r) (length s) s)"
| "ends (NotAhead r) = (\<lambda>s. if ends r s = [] then [s] else [])"
| "ends Dollar = (\<lambda>s. if s = [] \<or> s = [LF] then [s] else [])"

text \<open>\<open>re.search(r, s)\<close> finds a match: \<open>r\<close> matches at the start of some suffix of \<open>s\<close>.\<close>

fun re_search :: "rx \<Rightarrow> string \<Rightarrow> bool" where
  "re_search r [] = (ends r [] \<noteq> [])"
| "re_search r (c # s) = (ends r (c # s) \<noteq> [] \<or> re_search r s)"

definition lower_char :: "char \<Rightarrow> char" where
  "lower_char c = (if 65 \<le> (of_char c :: nat) \<and> (of_char c :: nat) \<le> 90
                   then char_of ((of_char c :: nat) + 32) else c)"

text \<open>A literal character, and a literal character under \<open>re.IGNORECASE\<close>.\<close>

definition Chr :: "char \<Rightarrow> rx" where
  "Chr c = Atom (\<lambda>x. x = c)"

definition ChrI :: "char \<Rightarrow> rx" where
  "ChrI c = Atom (\<lambda>x. lower_char x = lower_char c)"

fun Lit :: "string \<Rightarrow> rx" where
  "Lit [] = Eps"
| "Lit (c # s) = Seq (Chr c) (Lit s)"

fun LitI :: "string \<Rightarrow> rx" where
  "LitI [] = Eps"
| "LitI (c # s) = Seq (ChrI c) (LitI s)"

definition Plus :: "rx \<Rightarrow> rx" where
  "Plus r = Seq r (Star r)"

fun Seqs :: "rx list \<Rightarrow> rx" where
  "Seqs [] = Eps"
| "Seqs [r] = r"
| "Seqs (r # rs) = Seq r (Seqs rs)"

fun Alts :: "rx list \<Rightarrow> rx" where
  "Alts [] = NotAhead Eps"
| "Alts [r] = r"
| "Alts (r # rs) = Alt r (Alts rs)"

definition is_digit :: "char \<Rightarrow> bool" where
  "is_digit c = (48 \<le> (of_char c :: nat) \<and> (of_char c :: nat) \<le> 57)"

definition is_alpha :: "char \<Rightarrow> bool" where
  "is_alpha c = ((65 \<le> (of_char c :: nat) \<and> (of_char c :: nat) \<le> 90)
               \<or> (97 \<le> (of_char c :: nat) \<and> (of_char c :: nat) \<le> 122))"

text \<open>\<open>\w\<close> on ASCII: letters, digits and the underscore.\<close>

definition is_word :: "char \<Rightarrow> bool" where
  "is_word c = (is_alpha c \<or> is_digit c \<or> c = CHR ''_'')"

abbreviation "SP \<equiv> Atom isspace"
abbreviation "W \<equiv> Atom is_word"
abbreviation "D \<equiv> Atom is_digit"

section \<open>Query Validator (_validate_sparql_query)\<close>

text \<open>The verdict dictionary: \<open>{"is_valid": True}\<close>, or \<open>is_valid\<close> false with \<open>error\<close> and \<open>suggestion\<close>.\<close>

datatype verdict = Valid | Invalid (error: string) (suggestion: string)

fun is_valid :: "verdict \<Rightarrow> bool" where
  "is_valid Valid = True"
| "is_valid (Invalid e s) = False"

definition brackets_map :: "(char \<times> char) list" where
  "brackets_map = [(CHR ''('', CHR '')''), (CHR ''['', CHR '']''), (CHR ''{'', CHR ''}'')]"

text \<open>
  The loop over the characters with the stack \<open>open_brackets\<close> (the top is the last
  element): \<open>Inl char\<close> when the loop returns at the closer \<open>char\<close>, \<open>Inr\<close> of the stack
  that is left otherwise.
\<close>

fun check_brackets :: "string \<Rightarrow> string \<Rightarrow> char + string" where
  "check_brackets open_brackets [] = Inr open_brackets"
| "check_brackets open_brackets (char # rest) =
     (if char \<in> set (map fst brackets_map)
      then check_brackets (open_brackets @ [char]) rest
      else if char \<in> set (map snd brackets_map)
      then (if open_brackets = [] \<or> map_of brackets_map (last open_brackets) \<noteq> Some char
            then Inl char
            else check_brackets (butlast open_brackets) rest)
      else check_brackets open_brackets rest)"

definition quoted :: "char \<Rightarrow> string" where
  "quoted c = [CHR 0x27, c, CHR 0x27]"

definition unbalanced_closing :: "char \<Rightarrow> verdict" where
  "unbalanced_closing char =
     Invalid (''Unbalanced closing bracket/parenthesis/brace: '' @ quoted char)
       ''Ensure all opening brackets, parentheses, and braces have a matching closing one in the correct order.''"

definition unclosed_opening :: "char \<Rightarrow> verdict" where
  "unclosed_opening char =
     Invalid (''Unclosed opening bracket/parenthesis/brace: '' @ quoted char)
       ''Ensure all opening brackets, parentheses, and braces are closed.''"

text \<open>\<open>SELECT\s*(?![?*\w(])\<close>\<close>

definition rx_select :: rx where
  "rx_select = Seqs [LitI ''SELECT'', Star SP,
                     NotAhead (Atom (\<lambda>c. c \<in> set ''?*('' \<or> is_word c))]"

text \<open>\<open>WHERE\s*(?!\{)\<close> and \<open>WHERE\s*DATA\s*\{\<close>\<close>

definition rx_where :: rx where
  "rx_where = Seqs [LitI ''WHERE'', Star SP, NotAhead (Chr CHR ''{'')]"

definition rx_where_data :: rx where
  "rx_where_data = Seqs [LitI ''WHERE'', Star SP, LitI ''DATA'', Star SP, Chr CHR ''{'']"

text \<open>\<open>PREFIX\s+\w*:\s*(?!<)\<close> and \<open>PREFIX\s+\w*:\s*<[^>]*$\<close>\<close>

definition rx_prefix_no_uri :: rx where
  "rx_prefix_no_uri = Seqs [LitI ''PREFIX'', Plus SP, Star W, Chr CHR '':'', Star SP,
                            NotAhead (Chr CHR ''<'')]"

definition rx_prefix_open_uri :: rx where
  "rx_prefix_open_uri = Seqs [LitI ''PREFIX'', Plus SP, Star W, Chr CHR '':'', Star SP,
                              Chr CHR ''<'', Star (Atom (\<lambda>c. c \<noteq> CHR ''>'')), Dollar]"

text \<open>\<open>FILTER\s*\((?!\s*(NOT\s+EXISTS|EXISTS)\s*\{)\<close> and \<open>FILTER\s*\(\s*\)\<close>\<close>

definition rx_filter :: rx where
  "rx_filter = Seqs [LitI ''FILTER'', Star SP, Chr CHR ''('',
                     NotAhead (Seqs [Star SP,
                                     Alt (Seqs [LitI ''NOT'', Plus SP, LitI ''EXISTS''])
                                         (LitI ''EXISTS''),
                                     Star SP, Chr CHR ''{''])]"

definition rx_filter_empty :: rx where
  "rx_filter_empty = Seqs [LitI ''FILTER'', Star SP, Chr CHR ''('', Star SP, Chr CHR '')'']"

text \<open>\<open>(LIMIT|OFFSET)\s+(?!\d+)\<close>\<close>

definition rx_limit_offset :: rx where
  "rx_limit_offset = Seqs [Alt (LitI ''LIMIT'') (LitI ''OFFSET''), Plus SP, NotAhead (Plus D)]"

text \<open>\<open>ORDER\s+BY\s+(?!(ASC|DESC)\s*\(|\?\w+|IRI|STR|LANG|DATATYPE)\<close>\<close>

definition rx_order_by :: rx where
  "rx_order_by = Seqs [LitI ''ORDER'', Plus SP, LitI ''BY'', Plus SP,
                       NotAhead (Alts [Seqs [Alt (LitI ''ASC'') (LitI ''DESC''), Star SP, Chr CHR ''(''],
                                       Seq (Chr CHR ''?'') (Plus W),
                                       LitI ''IRI'', LitI ''STR'', LitI ''LANG'', LitI ''DATATYPE''])]"

text \<open>\<open>GROUP\s+BY\s+(?!\?\w+)\<close>\<close>

definition rx_group_by :: rx where
  "rx_group_by = Seqs [LitI ''GROUP'', Plus SP, LitI ''BY'', Plus SP,
                       NotAhead (Seq (Chr CHR ''?'') (Plus W))]"

text \<open>\<open>@[a-zA-Z]{2,}(?:-[a-zA-Z0-9]+)*\s*(")\<close> and \<open>\^\^<[^>]*>\s*(")\<close>, both without flags.\<close>

definition rx_lang_tag_quote :: rx where
  "rx_lang_tag_quote =
     Seqs [Chr CHR ''@'', Atom is_alpha, Atom is_alpha, Star (Atom is_alpha),
           Star (Seq (Chr CHR ''-'') (Plus (Atom (\<lambda>c. is_alpha c \<or> is_digit c)))),
           Star SP, Chr CHR 0x22]"

definition rx_datatype_quote :: rx where
  "rx_datatype_quote =
     Seqs [Chr CHR ''^'', Chr CHR ''^'', Chr CHR ''<'', Star (Atom (\<lambda>c. c \<noteq> CHR ''>'')),
           Chr CHR ''>'', Star SP, Chr CHR 0x22]"

text \<open>
  \<open>re.sub(r"#.*$", "", query, flags=re.MULTILINE)\<close>: every \<open>#\<close> is removed with the rest
  of its line, the newline staying. The flag says whether a comment is being skipped.
\<close>

fun remove_comments_from :: "bool \<Rightarrow> string \<Rightarrow> string" where
  "remove_comments_from in_comment [] = []"
| "remove_comments_from in_comment (c # s) =
     (if c = LF then c # remove_comments_from False s
      else if in_comment \<or> c = CHR ''#'' then remove_comments_from True s
      else c # remove_comments_from False s)"

definition remove_comments :: "string \<Rightarrow> string" where
  "remove_comments query = remove_comments_from False query"

text \<open>\<open>query.count(c) % 2 != 0\<close>\<close>

definition odd_count :: "char \<Rightarrow> string \<Rightarrow> bool" where
  "odd_count c query = (count_list query c mod 2 \<noteq> 0)"

definition invalid_select :: verdict where
  "invalid_select = Invalid ''Invalid SELECT clause.''
     (''SELECT keyword should be followed by variables (e.g., ?var), '' @ quoted CHR ''*''
      @ '', or aggregate functions (e.g., COUNT(?var)).'')"

definition invalid_where :: verdict where
  "invalid_where = Invalid ''Invalid WHERE clause.''
     ''WHERE keyword should be followed by a graph pattern enclosed in curly braces {} (e.g., WHERE { ?s ?p ?o . }).''"

definition invalid_prefix :: verdict where
  "invalid_prefix = Invalid ''Invalid PREFIX declaration.''
     ''PREFIX declarations should use URIs enclosed in < > (e.g., PREFIX foaf: <http://xmlns.com/foaf/0.1/>).''"

definition incomplete_prefix_uri :: verdict where
  "incomplete_prefix_uri = Invalid ''Incomplete URI in PREFIX declaration.''
     (''Ensure URIs in PREFIX declarations are properly closed with '' @ quoted CHR ''>'' @ ''.'')"

definition empty_filter :: verdict where
  "empty_filter = Invalid ''Empty FILTER clause.''
     ''FILTER clauses must contain an expression (e.g., FILTER(?age > 18)).''"

definition invalid_limit_offset :: verdict where
  "invalid_limit_offset = Invalid ''Invalid LIMIT or OFFSET clause.''
     ''LIMIT and OFFSET keywords must be followed by a non-negative integer.''"

definition invalid_order_by :: verdict where
  "invalid_order_by = Invalid ''Invalid ORDER BY clause.''
     ''ORDER BY should be followed by a variable (e.g., ?name), or a function call like ASC(?date) or DESC(?value).''"

definition invalid_group_by :: verdict where
  "invalid_group_by = Invalid ''Invalid GROUP BY clause.''
     ''GROUP BY should be followed by one or more variables (e.g., GROUP BY ?type).''"

definition unbalanced_double_quotes :: verdict where
  "unbalanced_double_quotes = Invalid ''Unbalanced double quotes.''
     (''Ensure all string literals using double quotes are properly opened and closed. ''
      @ ''Escape internal quotes if necessary (e.g., '' @ [CHR 0x5C, CHR 0x22] @ '' ).'')"

definition unbalanced_single_quotes :: verdict where
  "unbalanced_single_quotes = Invalid ''Unbalanced single quotes.''
     (''Ensure all string literals using single quotes are properly opened and closed. ''
      @ ''Escape internal quotes if necessary (e.g., '' @ [CHR 0x5C, CHR 0x27] @ '' ).'')"

text \<open>
  The checks after the delimiter check, in the order of the source. The branches of the
  source whose body is \<open>pass\<close>, and the final loop over the lines (its only statement is
  \<open>pass\<close>), change nothing and are left out.
\<close>

definition keyword_checks :: "string \<Rightarrow> verdict" where
  "keyword_checks query =
     (if re_search rx_select query then invalid_select
      else if re_search rx_where query \<and> \<not> re_search rx_where_data query then invalid_where
      else if re_search rx_prefix_no_uri query then invalid_prefix
      else if re_search rx_prefix_open_uri query then incomplete_prefix_uri
      else if re_search rx_filter query \<and> re_search rx_filter_empty query then empty_filter
      else if re_search rx_limit_offset query then invalid_limit_offset
      else if re_search rx_order_by query then invalid_order_by
      else if re_search rx_group_by query then invalid_group_by
      else if odd_count (CHR 0x22) query
              \<and> \<not> re_search rx_lang_tag_quote query \<and> \<not> re_search rx_datatype_quote query
              \<and> odd_count (CHR 0x22) (remove_comments query)
      then unbalanced_double_quotes
      else if odd_count (CHR 0x27) query \<and> odd_count (CHR 0x27) (remove_comments query)
      then unbalanced_single_quotes
      else Valid)"

definition validate_sparql_query :: "string \<Rightarrow> verdict" where
  "validate_sparql_query query =
     (case check_brackets [] query of
        Inl char \<Rightarrow> unbalanced_closing char
      | Inr open_brackets \<Rightarrow>
          if open_brackets \<noteq> [] then unclosed_opening (last open_brackets)
          else keyword_checks query)"

subsection \<open>Balanced delimiters, as the specification means them\<close>

definition is_opener :: "char \<Rightarrow> bool" where
  "is_opener c = (c \<in> set ''([{'')"

definition is_closer :: "char \<Rightarrow> bool" where
  "is_closer c = (c \<in> set '')]}'')"

definition closes :: "char \<Rightarrow> char \<Rightarrow> bool" where
  "closes l r = ((l, r) \<in> set brackets_map)"

text \<open>
  A text is balanced when its delimiters are properly nested: every closer closes the
  most recent opener that is still open, and no opener is left open at the end.
\<close>

inductive balanced :: "string \<Rightarrow> bool" where
  empty: "balanced []"
| other: "\<not> is_opener c \<Longrightarrow> \<not> is_closer c \<Longrightarrow> balanced [c]"
| nest: "closes l r \<Longrightarrow> balanced s \<Longrightarrow> balanced (l # s @ [r])"
| cat: "balanced s \<Longrightarrow> balanced t \<Longrightarrow> balanced (s @ t)"

text \<open>
  \<open>open_at st s\<close>: the text \<open>s\<close> leaves exactly the openers \<open>st\<close> open, in the order
  in which they occur; the text before the first of them, between two of them and after
  the last one is balanced.
\<close>

inductive open_at :: "string \<Rightarrow> string \<Rightarrow> bool" where
  none: "balanced b \<Longrightarrow> open_at [] b"
| more: "open_at st s \<Longrightarrow> is_opener c \<Longrightarrow> balanced b \<Longrightarrow> open_at (st @ [c]) (s @ c # b)"

definition unclosed_brace :: string where
  "unclosed_brace = ''ASK { ?s ?p ?o . FILTER(?o > 3)''"

definition closed_then_open :: string where
  "closed_then_open = ''ASK { ?s ?p ?o } [''"

definition stray_bracket :: string where
  "stray_bracket = ''ASK { ?s ?p ?o ] }''"

definition empty_filter_query :: string where
  "empty_filter_query = ''ASK { ?s ?p ?o . FILTER ( ) } LIMIT x''"

subsection \<open>The quote check\<close>

text \<open>A query reaches the quote check when every check before it passes.\<close>

definition reaches_quote_check :: "string \<Rightarrow> bool" where
  "reaches_quote_check query =
     (check_brackets [] query = Inr []
      \<and> \<not> re_search rx_select query
      \<and> \<not> (re_search rx_where query \<and> \<not> re_search rx_where_data query)
      \<and> \<not> re_search rx_prefix_no_uri query
      \<and> \<not> re_search rx_prefix_open_uri query
      \<and> \<not> (re_search rx_filter query \<and> re_search rx_filter_empty query)
      \<and> \<not> re_search rx_limit_offset query
      \<and> \<not> re_search rx_order_by query
      \<and> \<not> re_search rx_group_by query)"

text \<open>
  The specification speaks of quotes next to language tags or datatype annotations for
  both kinds of quote. These are the two patterns of the source with the single quote in
  the place of the double quote; the source has no such patterns.
\<close>

definition spec_lang_tag_single_quote :: rx where
  "spec_lang_tag_single_quote =
     Seqs [Chr CHR ''@'', Atom is_alpha, Atom is_alpha, Star (Atom is_alpha),
           Star (Seq (Chr CHR ''-'') (Plus (Atom (\<lambda>c. is_alpha c \<or> is_digit c)))),
           Star SP, Chr CHR 0x27]"

definition spec_datatype_single_quote :: rx where
  "spec_datatype_single_quote =
     Seqs [Chr CHR ''^'', Chr CHR ''^'', Chr CHR ''<'', Star (Atom (\<lambda>c. c \<noteq> CHR ''>'')),
           Chr CHR ''>'', Star SP, Chr CHR 0x27]"

text \<open>A string literal that holds a \<open>#\<close>: two single quotes, one of them after the \<open>#\<close>.\<close>

definition hash_in_literal :: string where
  "hash_in_literal = ''ASK { ?s ?p 'a # b' }''"

definition open_double_quote :: string where
  "open_double_quote = ''ASK { ?s ?p '' @ [CHR 0x22] @ ''a }''"

definition open_single_quote :: string where
  "open_single_quote = ''ASK { ?s ?p 'a }''"

section \<open>Properties of the Query Sanitizer\<close>

lemma splitlines_from_no_break:
  "\<forall>c \<in> set x. \<not> is_linebreak c \<Longrightarrow>
   splitlines_from cur (x @ rest) = splitlines_from (cur @ x) rest"
proof (induction x arbitrary: cur)
  case Nil
  then show ?case by simp
next
  case (Cons c x)
  have nb: "\<not> is_linebreak c" using Cons.prems by simp
  have ncr: "c \<noteq> CR" using nb by (auto simp: is_linebreak_def CR_def)
  show ?case
  proof (cases "x @ rest")
    case Nil
    then show ?thesis using nb by simp
  next
    case (Cons d s)
    have "splitlines_from cur ((c # x) @ rest) = splitlines_from (cur @ [c]) (x @ rest)"
      using Cons nb ncr by simp
    also have "\<dots> = splitlines_from ((cur @ [c]) @ x) rest"
      using Cons.IH Cons.prems by simp
    finally show ?thesis by simp
  qed
qed

lemma splitlines_from_LF:
  "splitlines_from cur (LF # rest) = cur # splitlines_from [] rest"
  by (cases rest) (auto simp: is_linebreak_def LF_def CR_def)

lemma splitlines_from_elems:
  "l \<in> set (splitlines_from cur s) \<Longrightarrow> \<forall>c \<in> set cur. \<not> is_linebreak c \<Longrightarrow>
   c \<in> set l \<Longrightarrow> \<not> is_linebreak c"
  by (induction cur s arbitrary: l rule: splitlines_from.induct) (auto split: if_splits)

text \<open>Joining lines with \<open>\n\<close> and splitting again gives the lines back.\<close>

lemma splitlines_join:
  "\<forall>l \<in> set ls. l \<noteq> [] \<and> (\<forall>c \<in> set l. \<not> is_linebreak c) \<Longrightarrow>
   splitlines (join [LF] ls) = ls"
proof (induction ls)
  case Nil
  then show ?case by (simp add: splitlines_def)
next
  case (Cons x ls)
  have nb: "\<forall>c \<in> set x. \<not> is_linebreak c" and ne: "x \<noteq> []"
    using Cons.prems by simp_all
  show ?case
  proof (cases ls)
    case Nil
    have "splitlines_from [] (x @ []) = splitlines_from ([] @ x) []"
      using nb by (rule splitlines_from_no_break)
    then show ?thesis using Nil ne by (simp add: splitlines_def)
  next
    case (Cons y ys)
    have "splitlines_from [] (x @ LF # join [LF] ls) = splitlines_from ([] @ x) (LF # join [LF] ls)"
      using nb by (rule splitlines_from_no_break)
    also have "\<dots> = x # splitlines_from [] (join [LF] ls)"
      by (simp add: splitlines_from_LF)
    also have "\<dots> = x # ls"
      using Cons.IH Cons.prems by (simp add: splitlines_def)
    finally show ?thesis using Cons by (simp add: splitlines_def)
  qed
qed

lemma keeps_line_nonempty: "keeps_line l \<Longrightarrow> l \<noteq> []"
  by (auto simp: keeps_line_def strip_def Let_def)

lemma filtered_lines_clean:
  "l \<in> set (filtered_query_lines q) \<Longrightarrow> l \<noteq> [] \<and> (\<forall>c \<in> set l. \<not> is_linebreak c)"
  using splitlines_from_elems[of l "[]" q]
  by (auto simp: filtered_query_lines_def splitlines_def keeps_line_nonempty)

lemma filtered_lines_fixed:
  "filtered_query_lines (processed_query q) = filtered_query_lines q"
proof -
  have "splitlines (processed_query q) = filtered_query_lines q"
    unfolding processed_query_def by (rule splitlines_join) (use filtered_lines_clean in blast)
  then show ?thesis
    by (simp add: filtered_query_lines_def[of "processed_query q"]) (simp add: filtered_query_lines_def)
qed

text \<open>
  Claim C9: the Sanitizer is idempotent: sanitizing the text it returns gives that text
  again, for every query text.
\<close>

theorem sanitizer_idempotent:
  "processed_query (processed_query q) = processed_query q"
  by (simp add: processed_query_def[of "processed_query q"] filtered_lines_fixed)
     (simp add: processed_query_def)

text \<open>
  Claim C5 on the code: a line whose keyword is followed by a tab is dropped, although
  its first white-space-delimited token, \<open>LIMIT\<close>, is in the keyword set: the code takes
  the text before the first space, here the whole line.
\<close>

theorem tab_after_keyword_dropped:
  "spec_first_token limit_with_tab = ''LIMIT''
   \<and> spec_retains limit_with_tab
   \<and> first_word (upper (strip limit_with_tab)) = limit_with_tab
   \<and> \<not> keeps_line limit_with_tab
   \<and> processed_query select_with_tab_limit = ''SELECT ?x WHERE { ?x wdt:P31 wd:Q5 . }''"
  by code_simp

section \<open>Properties of the Prefix Injector\<close>

lemma join_eq_Nil:
  "\<forall>l \<in> set ls. l \<noteq> [] \<Longrightarrow> (join sep ls = []) = (ls = [])"
  by (induction sep ls rule: join.induct) auto

lemma join_append:
  "xs \<noteq> [] \<Longrightarrow> ys \<noteq> [] \<Longrightarrow> join sep (xs @ ys) = join sep xs @ sep @ join sep ys"
  by (induction sep xs rule: join.induct) (auto simp: neq_Nil_conv)

lemma strip_prefixes: "strip prefixes = join [LF] standard_prefix_lines"
  by code_simp

lemma standard_prefix_lines_clean:
  "\<forall>l \<in> set standard_prefix_lines. l \<noteq> [] \<and> (\<forall>c \<in> set l. \<not> is_linebreak c)"
  by code_simp

lemma standard_prefix_lines_prefix:
  "filter starts_with_prefix standard_prefix_lines = standard_prefix_lines"
  by code_simp

lemma kept_line_not_blank: "keeps_line l \<Longrightarrow> strip l \<noteq> []"
  by (auto simp: keeps_line_def Let_def split: if_splits)

lemma processed_query_empty:
  "(processed_query q = []) = (filtered_query_lines q = [])"
  unfolding processed_query_def using filtered_lines_clean by (intro join_eq_Nil) blast

text \<open>
  Claim C6: the standard prefix block is put in front of the sanitized text, followed by
  a newline, exactly when the sanitized text is not empty, some retained line does not
  start with \<open>PREFIX\<close> and no retained line starts with \<open>PREFIX\<close> (white space stripped,
  letter case ignored); otherwise the sanitized text is passed on unchanged. When the
  block is added, the lines of the query that start with \<open>PREFIX\<close> are the six lines of
  the block, once each; a query that declares a \<open>PREFIX\<close> line gets none added.
\<close>

theorem prefix_block_added_once:
  "full_query q =
     (if processed_query q \<noteq> []
         \<and> (\<exists>l \<in> set (filtered_query_lines q). \<not> starts_with_prefix l)
         \<and> (\<forall>l \<in> set (filtered_query_lines q). \<not> starts_with_prefix l)
      then join [LF] standard_prefix_lines @ [LF] @ processed_query q
      else processed_query q)
   \<and> (full_query q \<noteq> processed_query q \<longrightarrow>
        filter starts_with_prefix (splitlines (full_query q)) = standard_prefix_lines)
   \<and> ((\<exists>l \<in> set (filtered_query_lines q). starts_with_prefix l) \<longrightarrow>
        full_query q = processed_query q)"
proof -
  let ?ls = "filtered_query_lines q"
  have nb: "(\<exists>l \<in> set ?ls. strip l \<noteq> [] \<and> \<not> starts_with_prefix l)
            = (\<exists>l \<in> set ?ls. \<not> starts_with_prefix l)"
    using kept_line_not_blank by (auto simp: filtered_query_lines_def)
  have eq: "full_query q =
     (if processed_query q \<noteq> []
         \<and> (\<exists>l \<in> set ?ls. \<not> starts_with_prefix l)
         \<and> (\<forall>l \<in> set ?ls. \<not> starts_with_prefix l)
      then join [LF] standard_prefix_lines @ [LF] @ processed_query q
      else processed_query q)"
    unfolding full_query_def inject_prefixes_def has_non_prefix_lines_def nb
    by (simp add: processed_query_def strip_prefixes)
  have once: "filter starts_with_prefix (splitlines (full_query q)) = standard_prefix_lines"
    if "full_query q \<noteq> processed_query q"
  proof -
    from that eq have ne: "?ls \<noteq> []" and np: "\<forall>l \<in> set ?ls. \<not> starts_with_prefix l"
      and fq: "full_query q = join [LF] standard_prefix_lines @ [LF] @ processed_query q"
      by (auto simp: processed_query_empty split: if_splits)
    have spne: "standard_prefix_lines \<noteq> []"
      by (simp add: standard_prefix_lines_def)
    have "full_query q = join [LF] (standard_prefix_lines @ ?ls)"
      unfolding fq processed_query_def join_append[OF spne ne] by simp
    moreover have "\<forall>l \<in> set (standard_prefix_lines @ ?ls). l \<noteq> [] \<and> (\<forall>c \<in> set l. \<not> is_linebreak c)"
      using standard_prefix_lines_clean filtered_lines_clean by auto
    ultimately have "splitlines (full_query q) = standard_prefix_lines @ ?ls"
      by (simp add: splitlines_join)
    then show ?thesis
      using np by (simp add: standard_prefix_lines_prefix)
  qed
  show ?thesis using eq once by auto
qed

theorem prefix_block_added_once_witness:
  "processed_query ask_query \<noteq> []
   \<and> full_query ask_query = join [LF] standard_prefix_lines @ [LF] @ ask_query
   \<and> filter starts_with_prefix (splitlines (full_query ask_query)) = standard_prefix_lines
   \<and> full_query prefixed_query = prefixed_query"
proof -
  have a: "processed_query ask_query = ask_query" "filtered_query_lines ask_query = [ask_query]"
    "\<not> starts_with_prefix ask_query"
    by code_simp+
  have b: "processed_query prefixed_query = prefixed_query"
    "filtered_query_lines prefixed_query
       = [''PREFIX wd: <http://www.wikidata.org/entity/>'', ''ASK { wd:Q42 ?p ?o . }'']"
    "starts_with_prefix ''PREFIX wd: <http://www.wikidata.org/entity/>''"
    by code_simp+
  have c: "processed_query ask_query \<noteq> []"
    using a(1) by (simp add: ask_query_def)
  note t1 = prefix_block_added_once[of ask_query]
  note t2 = prefix_block_added_once[of prefixed_query]
  have f1: "full_query ask_query = join [LF] standard_prefix_lines @ [LF] @ ask_query"
    using t1 a c by simp
  then have "full_query ask_query \<noteq> processed_query ask_query"
    using a(1) by simp
  then have f2: "filter starts_with_prefix (splitlines (full_query ask_query)) = standard_prefix_lines"
    using t1 by blast
  have f3: "full_query prefixed_query = prefixed_query"
    using t2 b by simp
  show ?thesis
    using c f1 f2 f3 by blast
qed

section \<open>Properties of the SPARQL Executor\<close>

lemma attempt_loop_step:
  "attempt < 3 \<Longrightarrow>
   attempt_loop ep q attempt b s =
     (case ep attempt (full_query q) of
        Inr results \<Rightarrow> \<lparr>outcome = results, sleeps = s, attempts = attempt + 1\<rparr>
      | Inl e \<Rightarrow>
          if caught_as e = QueryBadFormed
          then \<lparr>outcome = error_details (''SPARQL Query Syntax Error: '' @ message e) q e,
                sleeps = s, attempts = attempt + 1\<rparr>
          else if attempt < 2 then attempt_loop ep q (attempt + 1) (b * 2) (s @ [b])
          else \<lparr>outcome = error_details
                   ((if caught_as e = OtherException then ''An unexpected error occurred ''
                     else ''Error executing query '') @ attempt_label attempt @ '': '' @ message e) q e,
                sleeps = s, attempts = attempt + 1\<rparr>)"
  by (subst attempt_loop.simps) (simp add: MAX_RETRIES_def split: sum.splits exn_class.splits)

lemma attempt_label_2: "attempt_label 2 = ''(attempt 3/3)''"
  by code_simp

text \<open>The three iterations of the loop, written out.\<close>

lemma run_cases:
  "execute_sparql_run ep q =
     (case ep 0 (full_query q) of
        Inr r \<Rightarrow> \<lparr>outcome = r, sleeps = [], attempts = 1\<rparr>
      | Inl e0 \<Rightarrow>
          if caught_as e0 = QueryBadFormed
          then \<lparr>outcome = error_details (''SPARQL Query Syntax Error: '' @ message e0) q e0,
                sleeps = [], attempts = 1\<rparr>
          else (case ep 1 (full_query q) of
             Inr r \<Rightarrow> \<lparr>outcome = r, sleeps = [1], attempts = 2\<rparr>
           | Inl e1 \<Rightarrow>
               if caught_as e1 = QueryBadFormed
               then \<lparr>outcome = error_details (''SPARQL Query Syntax Error: '' @ message e1) q e1,
                     sleeps = [1], attempts = 2\<rparr>
               else (case ep 2 (full_query q) of
                  Inr r \<Rightarrow> \<lparr>outcome = r, sleeps = [1, 2], attempts = 3\<rparr>
                | Inl e2 \<Rightarrow>
                    if caught_as e2 = QueryBadFormed
                    then \<lparr>outcome = error_details (''SPARQL Query Syntax Error: '' @ message e2) q e2,
                          sleeps = [1, 2], attempts = 3\<rparr>
                    else \<lparr>outcome = error_details
                             ((if caught_as e2 = OtherException then ''An unexpected error occurred ''
                               else ''Error executing query '') @ ''(attempt 3/3): '' @ message e2) q e2,
                          sleeps = [1, 2], attempts = 3\<rparr>)))"
proof -
  have s0: "attempt_loop ep q 0 1 [] = (case ep 0 (full_query q) of
        Inr results \<Rightarrow> \<lparr>outcome = results, sleeps = [], attempts = 1\<rparr>
      | Inl e \<Rightarrow>
          if caught_as e = QueryBadFormed
          then \<lparr>outcome = error_details (''SPARQL Query Syntax Error: '' @ message e) q e,
                sleeps = [], attempts = 1\<rparr>
          else attempt_loop ep q 1 2 [1])"
    using attempt_loop_step[of 0 ep q 1 "[]"] by (simp split: sum.splits)
  have s1: "attempt_loop ep q 1 2 [1] = (case ep 1 (full_query q) of
        Inr results \<Rightarrow> \<lparr>outcome = results, sleeps = [1], attempts = 2\<rparr>
      | Inl e \<Rightarrow>
          if caught_as e = QueryBadFormed
          then \<lparr>outcome = error_details (''SPARQL Query Syntax Error: '' @ message e) q e,
                sleeps = [1], attempts = 2\<rparr>
          else attempt_loop ep q 2 4 [1, 2])"
    using attempt_loop_step[of 1 ep q 2 "[1]"]
    by (simp add: numeral_2_eq_2[symmetric] split: sum.splits)
  have s2: "attempt_loop ep q 2 4 [1, 2] = (case ep 2 (full_query q) of
        Inr results \<Rightarrow> \<lparr>outcome = results, sleeps = [1, 2], attempts = 3\<rparr>
      | Inl e \<Rightarrow>
          if caught_as e = QueryBadFormed
          then \<lparr>outcome = error_details (''SPARQL Query Syntax Error: '' @ message e) q e,
                sleeps = [1, 2], attempts = 3\<rparr>
          else \<lparr>outcome = error_details
                   ((if caught_as e = OtherException then ''An unexpected error occurred ''
                     else ''Error executing query '') @ ''(attempt 3/3): '' @ message e) q e,
                sleeps = [1, 2], attempts = 3\<rparr>)"
    using attempt_loop_step[of 2 ep q 4 "[1, 2]"]
    by (simp add: attempt_label_2 split: sum.splits)
  show ?thesis
    unfolding execute_sparql_run_def INITIAL_BACKOFF_def s0 s1 s2 ..
qed

lemma error_type_of_details [simp]:
  "dict_get (error_details msg q e) ''error_type'' = Some (JString (type_name e))"
  by (simp add: error_details_def)

text \<open>The fallback after the loop is dead code: no run returns it.\<close>

lemma fallback_unreachable:
  "outcome (execute_sparql_run ep q) = final_error_details q \<Longrightarrow>
   ep 0 (full_query q) = Inr (final_error_details q)
   \<or> ep 1 (full_query q) = Inr (final_error_details q)
   \<or> ep 2 (full_query q) = Inr (final_error_details q)"
  by (auto simp: run_cases error_details_def final_error_details_def
           split: sum.splits if_splits)

text \<open>
  Claim C2, as stated: when all three attempts fail with a retryable error, the outcome
  has the error kind \<open>MaxRetriesExceeded\<close>. It fails for an endpoint that always times
  out: the outcome then carries the error kind \<open>Timeout\<close>.
\<close>

theorem three_timeouts_not_max_retries_exceeded:
  "always_timeout 0 (full_query ask_query) = Inl timed_out
   \<and> always_timeout 1 (full_query ask_query) = Inl timed_out
   \<and> always_timeout 2 (full_query ask_query) = Inl timed_out
   \<and> caught_as timed_out = Timeout
   \<and> dict_get (outcome (execute_sparql_run always_timeout ask_query)) ''error_type''
       = Some (JString ''Timeout'')
   \<and> dict_get (outcome (execute_sparql_run always_timeout ask_query)) ''error_type''
       \<noteq> Some (JString ''MaxRetriesExceeded'')"
  by (simp add: run_cases always_timeout_def timed_out_def)

text \<open>
  Claim C2, amended: when all three attempts fail with a retryable error (one that is not
  \<open>QueryBadFormed\<close>), \<open>execute_sparql\<close> returns, after three attempts and the sleeps of 1
  and 2 seconds, the error details of the third failure: \<open>error_type\<close> is the class name
  of the last exception, \<open>error\<close> is its message after
  \<open>Error executing query (attempt 3/3): \<close> (for Timeout and ConnectionError) or
  \<open>An unexpected error occurred (attempt 3/3): \<close> (for any other exception), and
  \<open>query\<close> is the caller's query.
\<close>

theorem retries_exhausted_returns_last_error:
  assumes "ep 0 (full_query q) = Inl e0" and "caught_as e0 \<noteq> QueryBadFormed"
    and "ep 1 (full_query q) = Inl e1" and "caught_as e1 \<noteq> QueryBadFormed"
    and "ep 2 (full_query q) = Inl e2" and "caught_as e2 \<noteq> QueryBadFormed"
  shows "execute_sparql_run ep q =
           \<lparr>outcome = JObject
               [(''error'', JString ((if caught_as e2 = OtherException
                                      then ''An unexpected error occurred ''
                                      else ''Error executing query '')
                                     @ ''(attempt 3/3): '' @ message e2)),
                (''query'', JString q),
                (''error_type'', JString (type_name e2)),
                (''traceback'', JString (traceback e2))],
             sleeps = [1, 2], attempts = 3\<rparr>
         \<and> dict_get (outcome (execute_sparql_run ep q)) ''error_type'' = Some (JString (type_name e2))
         \<and> execute_sparql ep q = json_dumps (outcome (execute_sparql_run ep q))"
  using assms by (simp add: run_cases error_details_def execute_sparql_def)

theorem retries_exhausted_returns_last_error_witness:
  "always_timeout 0 (full_query ask_query) = Inl timed_out
   \<and> always_timeout 1 (full_query ask_query) = Inl timed_out
   \<and> always_timeout 2 (full_query ask_query) = Inl timed_out
   \<and> caught_as timed_out \<noteq> QueryBadFormed
   \<and> execute_sparql_run always_timeout ask_query =
           \<lparr>outcome = JObject
               [(''error'', JString ''Error executing query (attempt 3/3): timed out''),
                (''query'', JString ask_query),
                (''error_type'', JString ''Timeout''),
                (''traceback'', JString ''Traceback'')],
             sleeps = [1, 2], attempts = 3\<rparr>"
proof -
  have h: "always_timeout 0 (full_query ask_query) = Inl timed_out"
    "always_timeout 1 (full_query ask_query) = Inl timed_out"
    "always_timeout 2 (full_query ask_query) = Inl timed_out"
    by (simp_all add: always_timeout_def)
  have c: "caught_as timed_out \<noteq> QueryBadFormed"
    by (simp add: timed_out_def)
  show ?thesis
    using retries_exhausted_returns_last_error
            [of always_timeout ask_query timed_out timed_out timed_out] h c
    by (simp add: timed_out_def)
qed

text \<open>
  Claim C3, as stated: with two retryable failures followed by success, the third attempt
  is at least \<open>2^2\<close> seconds of backoff after the first. It fails: the two sleeps are of 1
  and 2 seconds, 3 seconds in all.
\<close>

theorem third_attempt_after_three_seconds:
  "failing_twice 0 (full_query ask_query) = Inl connection_refused
   \<and> failing_twice 1 (full_query ask_query) = Inl connection_refused
   \<and> failing_twice 2 (full_query ask_query) = Inr ask_true
   \<and> caught_as connection_refused = ConnectionError
   \<and> outcome (execute_sparql_run failing_twice ask_query) = ask_true
   \<and> attempts (execute_sparql_run failing_twice ask_query) = 3
   \<and> sleeps (execute_sparql_run failing_twice ask_query) = [1, 2]
   \<and> \<not> (2 ^ 2 \<le> sum_list (sleeps (execute_sparql_run failing_twice ask_query)))"
  by (simp add: run_cases failing_twice_def connection_refused_def)

text \<open>
  Claim C3, amended: the Executor makes at least one and at most 3 attempts, it sleeps once
  before each retry, and the sleep before retry number \<open>n + 1\<close> (after \<open>n + 1\<close> retryable
  failures) is of \<open>2^n\<close> seconds: the backoff starts at 1 second and doubles after each
  retryable failure. In particular, for two retryable failures followed by success, the
  success payload is returned and the sleeps before the third attempt are of 1 and 2
  seconds, 3 seconds in all.
\<close>

theorem backoff_schedule:
  "1 \<le> attempts (execute_sparql_run ep q)
   \<and> attempts (execute_sparql_run ep q) \<le> MAX_RETRIES
   \<and> length (sleeps (execute_sparql_run ep q)) + 1 = attempts (execute_sparql_run ep q)
   \<and> (\<forall>n < length (sleeps (execute_sparql_run ep q)).
         sleeps (execute_sparql_run ep q) ! n = INITIAL_BACKOFF * 2 ^ n)
   \<and> (ep 0 (full_query q) = Inl e0 \<and> caught_as e0 \<noteq> QueryBadFormed
        \<and> ep 1 (full_query q) = Inl e1 \<and> caught_as e1 \<noteq> QueryBadFormed
        \<and> ep 2 (full_query q) = Inr results
      \<longrightarrow> outcome (execute_sparql_run ep q) = results
          \<and> sleeps (execute_sparql_run ep q) = [1, 2]
          \<and> sum_list (sleeps (execute_sparql_run ep q)) = 3)"
proof -
  have a: "1 \<le> attempts (execute_sparql_run ep q)"
    by (simp add: run_cases split: sum.splits)
  have b: "attempts (execute_sparql_run ep q) \<le> MAX_RETRIES"
    by (simp add: run_cases MAX_RETRIES_def split: sum.splits)
  have c: "length (sleeps (execute_sparql_run ep q)) + 1 = attempts (execute_sparql_run ep q)"
    by (simp add: run_cases split: sum.splits)
  have d: "\<forall>n < length (sleeps (execute_sparql_run ep q)).
         sleeps (execute_sparql_run ep q) ! n = INITIAL_BACKOFF * 2 ^ n"
    by (simp add: run_cases INITIAL_BACKOFF_def less_Suc_eq numeral_2_eq_2 split: sum.splits)
  have e: "ep 0 (full_query q) = Inl e0 \<and> caught_as e0 \<noteq> QueryBadFormed
        \<and> ep 1 (full_query q) = Inl e1 \<and> caught_as e1 \<noteq> QueryBadFormed
        \<and> ep 2 (full_query q) = Inr results
      \<longrightarrow> outcome (execute_sparql_run ep q) = results
          \<and> sleeps (execute_sparql_run ep q) = [1, 2]
          \<and> sum_list (sleeps (execute_sparql_run ep q)) = 3"
    by (simp add: run_cases)
  show ?thesis using a b c d e by blast
qed

theorem backoff_schedule_witness:
  "failing_twice 0 (full_query ask_query) = Inl connection_refused
   \<and> failing_twice 1 (full_query ask_query) = Inl connection_refused
   \<and> failing_twice 2 (full_query ask_query) = Inr ask_true
   \<and> caught_as connection_refused \<noteq> QueryBadFormed
   \<and> attempts (execute_sparql_run failing_twice ask_query) \<le> 3
   \<and> outcome (execute_sparql_run failing_twice ask_query) = ask_true
   \<and> sleeps (execute_sparql_run failing_twice ask_query) = [1, 2]
   \<and> sleeps (execute_sparql_run failing_twice ask_query) ! 1 = 2 ^ 1"
proof -
  have h: "failing_twice 0 (full_query ask_query) = Inl connection_refused"
    "failing_twice 1 (full_query ask_query) = Inl connection_refused"
    "failing_twice 2 (full_query ask_query) = Inr ask_true"
    "caught_as connection_refused \<noteq> QueryBadFormed"
    by (simp_all add: failing_twice_def connection_refused_def)
  show ?thesis
    using backoff_schedule[of failing_twice ask_query connection_refused connection_refused ask_true] h
    by (simp add: MAX_RETRIES_def INITIAL_BACKOFF_def)
qed



section \<open>Properties of the Query Validator: delimiters\<close>

lemma opener_iff: "c \<in> set (map fst brackets_map) = is_opener c"
  by (auto simp: brackets_map_def is_opener_def)

lemma closer_iff: "c \<in> set (map snd brackets_map) = is_closer c"
  by (auto simp: brackets_map_def is_closer_def)

lemma closes_iff: "(map_of brackets_map l = Some r) = closes l r"
  by (auto simp: brackets_map_def closes_def)

lemma closes_kinds: "closes l r \<Longrightarrow> is_opener l \<and> is_closer r \<and> \<not> is_opener r"
  by (auto simp: brackets_map_def closes_def is_opener_def is_closer_def)

lemma check_brackets_simps:
  "is_opener c \<Longrightarrow> check_brackets st (c # s) = check_brackets (st @ [c]) s"
  "\<not> is_opener c \<Longrightarrow> \<not> is_closer c \<Longrightarrow> check_brackets st (c # s) = check_brackets st s"
  "\<not> is_opener c \<Longrightarrow> is_closer c \<Longrightarrow> st \<noteq> [] \<Longrightarrow> closes (last st) c \<Longrightarrow>
     check_brackets st (c # s) = check_brackets (butlast st) s"
  "\<not> is_opener c \<Longrightarrow> is_closer c \<Longrightarrow> st = [] \<or> \<not> closes (last st) c \<Longrightarrow>
     check_brackets st (c # s) = Inl c"
  by (auto simp: brackets_map_def is_opener_def is_closer_def closes_def)

declare check_brackets.simps(2) [simp del]

text \<open>A balanced text leaves the stack as it found it.\<close>

lemma balanced_skipped:
  "balanced w \<Longrightarrow> check_brackets st (w @ t) = check_brackets st t"
proof (induction w arbitrary: st t rule: balanced.induct)
  case empty
  then show ?case by simp
next
  case (other c)
  then show ?case by (simp add: check_brackets_simps)
next
  case (nest l r s)
  have k: "is_opener l" "is_closer r" "\<not> is_opener r"
    using nest.hyps(1) closes_kinds by blast+
  have "check_brackets st ((l # s @ [r]) @ t) = check_brackets (st @ [l]) (s @ r # t)"
    using k by (simp add: check_brackets_simps)
  also have "\<dots> = check_brackets (st @ [l]) (r # t)"
    using nest.IH by simp
  also have "\<dots> = check_brackets st t"
    using k nest.hyps(1) by (simp add: check_brackets_simps)
  finally show ?case .
next
  case (cat s t')
  then show ?case by simp
qed

text \<open>A balanced text put anywhere inside a balanced text gives a balanced text.\<close>

lemma balanced_insert:
  "balanced w \<Longrightarrow> balanced x \<Longrightarrow> w = u @ v \<Longrightarrow> balanced (u @ x @ v)"
proof (induction w arbitrary: u v rule: balanced.induct)
  case empty
  then show ?case by simp
next
  case (other c)
  from other.prems(2) have "(u = [] \<and> v = [c]) \<or> (u = [c] \<and> v = [])"
    by (cases u) auto
  then show ?case
    using balanced.cat[OF other.prems(1) balanced.other[OF other.hyps]]
          balanced.cat[OF balanced.other[OF other.hyps] other.prems(1)]
    by auto
next
  case (nest l r s)
  have whole: "balanced (l # s @ [r])"
    using nest.hyps by (rule balanced.nest)
  show ?case
  proof (cases "u = [] \<or> v = []")
    case True
    then show ?thesis
      using balanced.cat[OF nest.prems(1) whole] balanced.cat[OF whole nest.prems(1)] nest.prems(2)
      by auto
  next
    case False
    then obtain u' where u: "u = l # u'"
      using nest.prems(2) by (cases u) auto
    from False obtain v' where v: "v = v' @ [r]"
      using nest.prems(2) by (cases v rule: rev_cases) auto
    have s: "s = u' @ v'"
      using nest.prems(2) u v by simp
    have "balanced (u' @ x @ v')"
      using nest.IH[OF nest.prems(1) s] .
    then have "balanced (l # (u' @ x @ v') @ [r])"
      using nest.hyps(1) by (intro balanced.nest)
    then show ?thesis
      using u v by simp
  qed
next
  case (cat s t)
  from cat.prems(2) obtain k where
    "(s = u @ k \<and> v = k @ t) \<or> (s @ k = u \<and> t = k @ v)"
    by (auto simp: append_eq_append_conv2)
  then show ?case
  proof
    assume a: "s = u @ k \<and> v = k @ t"
    then have "balanced (u @ x @ k)"
      using cat.IH(1)[OF cat.prems(1)] by simp
    then have "balanced ((u @ x @ k) @ t)"
      using cat.hyps(2) by (rule balanced.cat)
    then show ?thesis using a by simp
  next
    assume a: "s @ k = u \<and> t = k @ v"
    then have "balanced (k @ x @ v)"
      using cat.IH(2)[OF cat.prems(1)] by simp
    then have "balanced (s @ (k @ x @ v))"
      by (rule balanced.cat[OF cat.hyps(1)])
    then show ?thesis using a by auto
  qed
qed

text \<open>When the loop ends with an empty stack, the openers on the stack and the text read are balanced.\<close>

lemma check_brackets_empty_balanced:
  "check_brackets st s = Inr [] \<Longrightarrow> balanced (st @ s)"
proof (induction s arbitrary: st)
  case Nil
  then show ?case by (simp add: balanced.empty)
next
  case (Cons c s)
  consider (op) "is_opener c"
    | (ot) "\<not> is_opener c" "\<not> is_closer c"
    | (cl) "\<not> is_opener c" "is_closer c" "st \<noteq> []" "closes (last st) c"
    | (bad) "\<not> is_opener c" "is_closer c" "st = [] \<or> \<not> closes (last st) c"
    by blast
  then show ?case
  proof cases
    case op
    then have "check_brackets (st @ [c]) s = Inr []"
      using Cons.prems by (simp add: check_brackets_simps)
    then have "balanced ((st @ [c]) @ s)"
      by (rule Cons.IH)
    then show ?thesis by simp
  next
    case ot
    then have "check_brackets st s = Inr []"
      using Cons.prems by (simp add: check_brackets_simps)
    then have "balanced (st @ s)"
      by (rule Cons.IH)
    then have "balanced (st @ [c] @ s)"
      using balanced.other[OF ot] by (rule balanced_insert) simp
    then show ?thesis by simp
  next
    case cl
    then have "check_brackets (butlast st) s = Inr []"
      using Cons.prems by (simp add: check_brackets_simps)
    then have b: "balanced (butlast st @ s)"
      by (rule Cons.IH)
    have "balanced (last st # [] @ [c])"
      using cl(4) balanced.empty by (rule balanced.nest)
    then have p: "balanced [last st, c]" by simp
    have ins: "balanced (butlast st @ [last st, c] @ s)"
      using b p by (rule balanced_insert) simp
    have "butlast st @ [last st] = st"
      using cl(3) by (rule append_butlast_last_id)
    then have "(butlast st @ [last st]) @ c # s = st @ c # s"
      by (rule arg_cong)
    then have e: "butlast st @ [last st, c] @ s = st @ c # s"
      by simp
    show ?thesis using ins unfolding e .
  next
    case bad
    then show ?thesis
      using Cons.prems by (simp add: check_brackets_simps)
  qed
qed

text \<open>The stack matcher accepts exactly the balanced texts.\<close>

lemma check_brackets_balanced:
  "(check_brackets [] query = Inr []) = balanced query"
  using balanced_skipped[of query "[]" "[]"] check_brackets_empty_balanced[of "[]" query]
  by auto

text \<open>Where the loop stops at a closer, and what the stack holds at the end.\<close>

lemma check_brackets_stops:
  "check_brackets st s = Inl c \<Longrightarrow>
   \<exists>pre post st'. s = pre @ c # post \<and> is_closer c \<and> check_brackets st pre = Inr st'
      \<and> (st' = [] \<or> \<not> closes (last st') c)"
proof (induction s arbitrary: st)
  case Nil
  then show ?case by simp
next
  case (Cons a s)
  consider (op) "is_opener a"
    | (ot) "\<not> is_opener a" "\<not> is_closer a"
    | (cl) "\<not> is_opener a" "is_closer a" "st \<noteq> []" "closes (last st) a"
    | (bad) "\<not> is_opener a" "is_closer a" "st = [] \<or> \<not> closes (last st) a"
    by blast
  then show ?case
  proof cases
    case op
    then have "check_brackets (st @ [a]) s = Inl c"
      using Cons.prems by (simp add: check_brackets_simps)
    from Cons.IH[OF this] obtain pre post st' where
      "s = pre @ c # post" "is_closer c" "check_brackets (st @ [a]) pre = Inr st'"
      "st' = [] \<or> \<not> closes (last st') c" by blast
    then have "a # s = (a # pre) @ c # post \<and> is_closer c \<and> check_brackets st (a # pre) = Inr st'
        \<and> (st' = [] \<or> \<not> closes (last st') c)"
      using op by (simp add: check_brackets_simps)
    then show ?thesis by blast
  next
    case ot
    then have "check_brackets st s = Inl c"
      using Cons.prems by (simp add: check_brackets_simps)
    from Cons.IH[OF this] obtain pre post st' where
      "s = pre @ c # post" "is_closer c" "check_brackets st pre = Inr st'"
      "st' = [] \<or> \<not> closes (last st') c" by blast
    then have "a # s = (a # pre) @ c # post \<and> is_closer c \<and> check_brackets st (a # pre) = Inr st'
        \<and> (st' = [] \<or> \<not> closes (last st') c)"
      using ot by (simp add: check_brackets_simps)
    then show ?thesis by blast
  next
    case cl
    then have "check_brackets (butlast st) s = Inl c"
      using Cons.prems by (simp add: check_brackets_simps)
    from Cons.IH[OF this] obtain pre post st' where
      "s = pre @ c # post" "is_closer c" "check_brackets (butlast st) pre = Inr st'"
      "st' = [] \<or> \<not> closes (last st') c" by blast
    then have "a # s = (a # pre) @ c # post \<and> is_closer c \<and> check_brackets st (a # pre) = Inr st'
        \<and> (st' = [] \<or> \<not> closes (last st') c)"
      using cl by (simp add: check_brackets_simps)
    then show ?thesis by blast
  next
    case bad
    then have "c = a"
      using Cons.prems by (simp add: check_brackets_simps)
    then have "a # s = [] @ c # s \<and> is_closer c \<and> check_brackets st [] = Inr st
        \<and> (st = [] \<or> \<not> closes (last st) c)"
      using bad by simp
    then show ?thesis by blast
  qed
qed

lemma check_brackets_stack:
  "check_brackets st s = Inr st' \<Longrightarrow> set st' \<subseteq> set st \<union> {c \<in> set s. is_opener c}"
proof (induction s arbitrary: st)
  case Nil
  then show ?case by auto
next
  case (Cons a s)
  consider (op) "is_opener a"
    | (ot) "\<not> is_opener a" "\<not> is_closer a"
    | (cl) "\<not> is_opener a" "is_closer a" "st \<noteq> []" "closes (last st) a"
    | (bad) "\<not> is_opener a" "is_closer a" "st = [] \<or> \<not> closes (last st) a"
    by blast
  then show ?case
  proof cases
    case op
    then show ?thesis
      using Cons.IH[of "st @ [a]"] Cons.prems by (auto simp: check_brackets_simps)
  next
    case ot
    then show ?thesis
      using Cons.IH[of st] Cons.prems by (auto simp: check_brackets_simps)
  next
    case cl
    then show ?thesis
      using Cons.IH[of "butlast st"] Cons.prems in_set_butlastD[of _ st]
      by (auto simp: check_brackets_simps)
  next
    case bad
    then show ?thesis
      using Cons.prems by (simp add: check_brackets_simps)
  qed
qed

text \<open>Reading a text in two parts.\<close>

lemma check_brackets_append:
  "check_brackets st (s @ t) =
     (case check_brackets st s of Inl c \<Rightarrow> Inl c | Inr st' \<Rightarrow> check_brackets st' t)"
proof (induction s arbitrary: st)
  case Nil
  then show ?case by simp
next
  case (Cons a s)
  consider (op) "is_opener a"
    | (ot) "\<not> is_opener a" "\<not> is_closer a"
    | (cl) "\<not> is_opener a" "is_closer a" "st \<noteq> []" "closes (last st) a"
    | (bad) "\<not> is_opener a" "is_closer a" "st = [] \<or> \<not> closes (last st) a"
    by blast
  then show ?case
  proof cases
    case op
    then show ?thesis using Cons.IH[of "st @ [a]"] by (simp add: check_brackets_simps)
  next
    case ot
    then show ?thesis using Cons.IH[of st] by (simp add: check_brackets_simps)
  next
    case cl
    then show ?thesis using Cons.IH[of "butlast st"] by (simp add: check_brackets_simps)
  next
    case bad
    then show ?thesis by (simp add: check_brackets_simps)
  qed
qed

lemma open_at_extend:
  "open_at st s \<Longrightarrow> balanced x \<Longrightarrow> open_at st (s @ x)"
proof (induction rule: open_at.induct)
  case (none b)
  then show ?case by (simp add: balanced.cat open_at.none)
next
  case (more st s c b)
  have "balanced (b @ x)"
    using more.hyps(3) more.prems by (rule balanced.cat)
  then have "open_at (st @ [c]) (s @ c # (b @ x))"
    using more.hyps(1,2) by (intro open_at.more)
  then show ?case by simp
qed

lemma open_at_last:
  "open_at (st @ [c]) s \<Longrightarrow>
   \<exists>pre post. s = pre @ c # post \<and> open_at st pre \<and> is_opener c \<and> balanced post"
  by (erule open_at.cases) auto

text \<open>What the stack holds when the loop reaches the end of the text.\<close>

lemma check_brackets_open_at:
  "check_brackets [] s = Inr st \<Longrightarrow> open_at st s"
proof (induction s arbitrary: st rule: rev_induct)
  case Nil
  then show ?case by (auto intro: open_at.none balanced.empty)
next
  case (snoc a s)
  from snoc.prems obtain st0 where s0: "check_brackets [] s = Inr st0"
    and a0: "check_brackets st0 [a] = Inr st"
    by (auto simp: check_brackets_append split: sum.splits)
  have o0: "open_at st0 s" using s0 by (rule snoc.IH)
  consider (op) "is_opener a"
    | (ot) "\<not> is_opener a" "\<not> is_closer a"
    | (cl) "\<not> is_opener a" "is_closer a" "st0 \<noteq> []" "closes (last st0) a"
    | (bad) "\<not> is_opener a" "is_closer a" "st0 = [] \<or> \<not> closes (last st0) a"
    by blast
  then show ?case
  proof cases
    case op
    then have "st = st0 @ [a]" using a0 by (simp add: check_brackets_simps)
    moreover have "open_at (st0 @ [a]) (s @ a # [])"
      using o0 op balanced.empty by (rule open_at.more)
    ultimately show ?thesis by simp
  next
    case ot
    then have "st = st0" using a0 by (simp add: check_brackets_simps)
    moreover have "open_at st0 (s @ [a])"
      using o0 balanced.other[OF ot] by (rule open_at_extend)
    ultimately show ?thesis by simp
  next
    case cl
    then have st: "st = butlast st0" using a0 by (simp add: check_brackets_simps)
    have "open_at (butlast st0 @ [last st0]) s"
      using o0 cl(3) by simp
    from open_at_last[OF this] obtain pre post where
      s: "s = pre @ last st0 # post" and p: "open_at (butlast st0) pre" and b: "balanced post"
      by blast
    have "balanced (last st0 # post @ [a])"
      using cl(4) b by (rule balanced.nest)
    then have "open_at (butlast st0) (pre @ (last st0 # post @ [a]))"
      using p by (intro open_at_extend)
    then show ?thesis using st s by simp
  next
    case bad
    then show ?thesis using a0 by (simp add: check_brackets_simps)
  qed
qed

text \<open>
  Claim C7: a query whose delimiters are not balanced gets an invalid verdict from the
  delimiter check, whatever the later checks would say. Either the text reads
  \<open>pre @ c # post\<close> with \<open>c\<close> a closer that does not close the opener on top of the stack
  left by \<open>pre\<close> (or the stack is empty), and the error names \<open>c\<close>: the first closer
  that is unmatched or out of order. Or no closer is rejected, the text reads
  \<open>pre @ c # post\<close> with \<open>c\<close> an opener and \<open>post\<close> balanced, so that \<open>c\<close> is the last
  opener that is never closed, it is on top of the stack at the end, and the error names it.
\<close>

theorem unbalanced_query_rejected:
  assumes "\<not> balanced query"
  shows "\<not> is_valid (validate_sparql_query query)
     \<and> ((\<exists>c pre post st. query = pre @ c # post \<and> is_closer c
             \<and> check_brackets [] pre = Inr st \<and> (st = [] \<or> \<not> closes (last st) c)
             \<and> validate_sparql_query query = unbalanced_closing c
             \<and> error (validate_sparql_query query)
                 = ''Unbalanced closing bracket/parenthesis/brace: '' @ [CHR 0x27, c, CHR 0x27])
        \<or> (\<exists>c pre post st. query = pre @ c # post \<and> is_opener c \<and> balanced post
             \<and> c \<in> set query
             \<and> check_brackets [] query = Inr (st @ [c])
             \<and> validate_sparql_query query = unclosed_opening c
             \<and> error (validate_sparql_query query)
                 = ''Unclosed opening bracket/parenthesis/brace: '' @ [CHR 0x27, c, CHR 0x27]))"
proof (cases "check_brackets [] query")
  case (Inl c)
  from check_brackets_stops[OF Inl] obtain pre post st where
    "query = pre @ c # post" "is_closer c" "check_brackets [] pre = Inr st"
    "st = [] \<or> \<not> closes (last st) c" by blast
  moreover have "validate_sparql_query query = unbalanced_closing c"
    using Inl by (simp add: validate_sparql_query_def)
  ultimately show ?thesis
    by (auto simp: unbalanced_closing_def quoted_def)
next
  case (Inr st)
  have ne: "st \<noteq> []"
    using Inr assms check_brackets_balanced by auto
  then have st: "st = butlast st @ [last st]" by simp
  have "open_at (butlast st @ [last st]) query"
    using check_brackets_open_at[OF Inr] ne by simp
  from open_at_last[OF this] obtain pre post where
    q: "query = pre @ last st # post" and o: "is_opener (last st)" and b: "balanced post"
    by blast
  have m: "last st \<in> set query"
    using q by auto
  have c: "check_brackets [] query = Inr (butlast st @ [last st])"
    using Inr ne by simp
  have v: "validate_sparql_query query = unclosed_opening (last st)"
    using Inr ne by (simp add: validate_sparql_query_def)
  have e: "error (validate_sparql_query query)
             = ''Unclosed opening bracket/parenthesis/brace: '' @ [CHR 0x27, last st, CHR 0x27]"
    using v by (simp add: unclosed_opening_def quoted_def)
  have n: "\<not> is_valid (validate_sparql_query query)"
    using v by (simp add: unclosed_opening_def)
  show ?thesis
    using q o b m c v e n by blast
qed

lemma not_balanced_unclosed_brace: "\<not> balanced unclosed_brace"
proof -
  have "check_brackets [] unclosed_brace \<noteq> Inr []"
    by (simp add: unclosed_brace_def check_brackets.simps brackets_map_def)
  then show ?thesis by (simp add: check_brackets_balanced)
qed

lemma not_balanced_stray_bracket: "\<not> balanced stray_bracket"
proof -
  have "check_brackets [] stray_bracket \<noteq> Inr []"
    by (simp add: stray_bracket_def check_brackets.simps brackets_map_def)
  then show ?thesis by (simp add: check_brackets_balanced)
qed

lemma not_balanced_closed_then_open: "\<not> balanced closed_then_open"
proof -
  have "check_brackets [] closed_then_open \<noteq> Inr []"
    by (simp add: closed_then_open_def check_brackets.simps brackets_map_def)
  then show ?thesis by (simp add: check_brackets_balanced)
qed

theorem unbalanced_query_rejected_witness:
  "\<not> balanced unclosed_brace
   \<and> error (validate_sparql_query unclosed_brace)
       = ''Unclosed opening bracket/parenthesis/brace: '' @ [CHR 0x27, CHR ''{'', CHR 0x27]
   \<and> \<not> balanced stray_bracket
   \<and> error (validate_sparql_query stray_bracket)
       = ''Unbalanced closing bracket/parenthesis/brace: '' @ [CHR 0x27, CHR '']'', CHR 0x27]
   \<and> \<not> is_valid (validate_sparql_query stray_bracket)
   \<and> \<not> balanced closed_then_open
   \<and> validate_sparql_query closed_then_open = unclosed_opening CHR ''[''"
proof -
  have c: "validate_sparql_query closed_then_open = unclosed_opening CHR ''[''"
    by (simp add: validate_sparql_query_def closed_then_open_def check_brackets.simps brackets_map_def)
  have a: "validate_sparql_query unclosed_brace = unclosed_opening CHR ''{''"
    by (simp add: validate_sparql_query_def unclosed_brace_def check_brackets.simps brackets_map_def)
  have b: "validate_sparql_query stray_bracket = unbalanced_closing CHR '']''"
    by (simp add: validate_sparql_query_def stray_bracket_def check_brackets.simps brackets_map_def)
  have "\<not> is_valid (validate_sparql_query stray_bracket)"
    using unbalanced_query_rejected[OF not_balanced_stray_bracket] by simp
  then show ?thesis
    using not_balanced_unclosed_brace not_balanced_stray_bracket not_balanced_closed_then_open a b c
    by (simp add: unclosed_opening_def unbalanced_closing_def quoted_def)
qed

section \<open>Properties of the Query Validator: the FILTER check\<close>

lemma ends_Seq_nonempty:
  "(ends (Seq a b) s \<noteq> []) = (\<exists>t \<in> set (ends a s). ends b t \<noteq> [])"
  by (auto simp: concat_eq_Nil_conv)

lemma ends_Chr_nonempty:
  "(ends (Chr c) s \<noteq> []) = (\<exists>t. s = c # t)"
  by (cases s) (auto simp: Chr_def)

lemma ends_Chr_elem:
  "(t \<in> set (ends (Chr c) s)) = (s = c # t)"
  by (cases s) (auto simp: Chr_def)

text \<open>What a starred atom leaves is the text less some leading characters of that class.\<close>

lemma star_atom_sound:
  "t \<in> set (star_ends (ends (Atom p)) n s) \<Longrightarrow> \<exists>ws. s = ws @ t \<and> (\<forall>c \<in> set ws. p c)"
proof (induction n arbitrary: s)
  case 0
  then show ?case by simp
next
  case (Suc n)
  show ?case
  proof (cases "t = s")
    case True
    then show ?thesis by simp
  next
    case False
    then obtain c s' where s: "s = c # s'" and pc: "p c"
      and t: "t \<in> set (star_ends (ends (Atom p)) n s')"
      using Suc.prems by (cases s) (auto split: if_splits)
    from Suc.IH[OF t] obtain ws where "s' = ws @ t" "\<forall>c \<in> set ws. p c" by blast
    then have "s = (c # ws) @ t \<and> (\<forall>x \<in> set (c # ws). p x)"
      using s pc by simp
    then show ?thesis by blast
  qed
qed

lemma re_search_mono:
  "(\<And>u. ends r u \<noteq> [] \<Longrightarrow> ends r' u \<noteq> []) \<Longrightarrow> re_search r s \<Longrightarrow> re_search r' s"
  by (induction s) auto

lemma space_not_keyword_start:
  "isspace c \<Longrightarrow> lower_char c \<noteq> CHR ''n'' \<and> lower_char c \<noteq> CHR ''e''"
  by (auto simp: isspace_def lower_char_def)

lemma LitI_miss:
  "lower_char c \<noteq> lower_char d \<Longrightarrow> ends (LitI (d # ds)) (c # t) = []"
  by (simp add: ChrI_def)

lemma no_exists_form:
  assumes "lower_char c \<noteq> CHR ''n''" and "lower_char c \<noteq> CHR ''e''"
  shows "ends (Seqs [Alt (Seqs [LitI ''NOT'', Plus SP, LitI ''EXISTS'']) (LitI ''EXISTS''),
                     Star SP, Chr CHR ''{'']) (c # t) = []"
proof -
  have l: "lower_char CHR ''N'' = CHR ''n''" "lower_char CHR ''E'' = CHR ''e''"
    by code_simp+
  have n: "ends (LitI ''NOT'') (c # t) = []"
    by (rule LitI_miss) (simp add: l assms)
  have e: "ends (LitI ''EXISTS'') (c # t) = []"
    by (rule LitI_miss) (simp add: l assms)
  show ?thesis
    by (simp only: Seqs.simps ends.simps n e concat.simps list.map append_Nil)
qed

lemma no_exists_form_Nil:
  "ends (Seqs [Alt (Seqs [LitI ''NOT'', Plus SP, LitI ''EXISTS'']) (LitI ''EXISTS''),
               Star SP, Chr CHR ''{'']) [] = []"
  by (simp add: ChrI_def del: star_ends.simps)

text \<open>After \<open>FILTER (\<close>, empty parentheses are no \<open>EXISTS\<close> or \<open>NOT EXISTS\<close> form.\<close>

lemma empty_parens_not_exists:
  assumes "ends (Seq (Star SP) (Chr CHR '')'')) s \<noteq> []"
  shows "ends (Seqs [Star SP,
                     Alt (Seqs [LitI ''NOT'', Plus SP, LitI ''EXISTS'']) (LitI ''EXISTS''),
                     Star SP, Chr CHR ''{'']) s = []"
proof -
  let ?X = "Seqs [Alt (Seqs [LitI ''NOT'', Plus SP, LitI ''EXISTS'']) (LitI ''EXISTS''),
                  Star SP, Chr CHR ''{'']"
  from assms obtain t4 r where t4: "t4 \<in> set (ends (Star SP) s)" and r: "t4 = CHR '')'' # r"
    by (auto simp: ends_Seq_nonempty ends_Chr_nonempty)
  from star_atom_sound[of t4 isspace "length s" s] t4
  obtain ws4 where ws4: "s = ws4 @ t4" "\<forall>c \<in> set ws4. isspace c" by auto
  have "ends ?X t = []" if t: "t \<in> set (ends (Star SP) s)" for t
  proof -
    from star_atom_sound[of t isspace "length s" s] t
    obtain ws where ws: "s = ws @ t" "\<forall>c \<in> set ws. isspace c" by auto
    from ws(1) ws4(1) have "ws @ t = ws4 @ t4" by simp
    then obtain k where "(ws = ws4 @ k \<and> k @ t = t4) \<or> (ws @ k = ws4 \<and> t = k @ t4)"
      by (auto simp: append_eq_append_conv2)
    then show ?thesis
    proof
      assume a: "ws = ws4 @ k \<and> k @ t = t4"
      have "k = []"
      proof (rule ccontr)
        assume "k \<noteq> []"
        then have "hd k = CHR '')''" using a r by (cases k) auto
        moreover have "isspace (hd k)" using a ws(2) \<open>k \<noteq> []\<close> by (cases k) auto
        ultimately show False by (simp add: isspace_def)
      qed
      then have "t = CHR '')'' # r" using a r by simp
      then show ?thesis
        using no_exists_form[of "CHR '')''" r] by (simp add: lower_char_def)
    next
      assume a: "ws @ k = ws4 \<and> t = k @ t4"
      show ?thesis
      proof (cases k)
        case Nil
        then have "t = CHR '')'' # r" using a r by simp
        then show ?thesis
          using no_exists_form[of "CHR '')''" r] by (simp add: lower_char_def)
      next
        case (Cons c k')
        then have "isspace c" using a ws4(2) by auto
        then show ?thesis
          using no_exists_form[of c "k' @ t4"] space_not_keyword_start[of c] a Cons by simp
      qed
    qed
  qed
  then have "\<forall>t \<in> set (ends (Star SP) s). ends ?X t = []" by blast
  then show ?thesis by simp
qed

lemma filter_empty_is_filter:
  "ends rx_filter_empty u \<noteq> [] \<Longrightarrow> ends rx_filter u \<noteq> []"
proof -
  let ?X = "Seqs [Star SP,
                  Alt (Seqs [LitI ''NOT'', Plus SP, LitI ''EXISTS'']) (LitI ''EXISTS''),
                  Star SP, Chr CHR ''{'']"
  assume "ends rx_filter_empty u \<noteq> []"
  then have "ends (Seq (LitI ''FILTER'') (Seq (Star SP) (Seq (Chr CHR ''('')
                 (Seq (Star SP) (Chr CHR '')''))))) u \<noteq> []"
    by (simp add: rx_filter_empty_def)
  then obtain t1 t2 t3 where
    t1: "t1 \<in> set (ends (LitI ''FILTER'') u)" and
    t2: "t2 \<in> set (ends (Star SP) t1)" and
    t3: "t3 \<in> set (ends (Chr CHR ''('') t2)" and
    rest: "ends (Seq (Star SP) (Chr CHR '')'')) t3 \<noteq> []"
    unfolding ends_Seq_nonempty by blast
  have "ends ?X t3 = []"
    using rest by (rule empty_parens_not_exists)
  then have "ends (NotAhead ?X) t3 \<noteq> []" by simp
  then have "ends (Seq (LitI ''FILTER'') (Seq (Star SP) (Seq (Chr CHR ''('') (NotAhead ?X)))) u \<noteq> []"
    unfolding ends_Seq_nonempty using t1 t2 t3 by blast
  then show ?thesis
    by (simp add: rx_filter_def)
qed

text \<open>
  Claim C10: a query that contains \<open>FILTER\<close>, optional white space and empty parentheses
  (letter case ignored) is also matched by the pattern that excludes the \<open>EXISTS\<close> and
  \<open>NOT EXISTS\<close> forms, and it is rejected; when the delimiter, SELECT, WHERE and PREFIX
  checks pass, the verdict is the error \<open>Empty FILTER clause.\<close>, whatever the later
  checks (LIMIT/OFFSET, ORDER BY, GROUP BY, quotes) would say.
\<close>

theorem empty_filter_rejected:
  assumes "re_search rx_filter_empty query"
  shows "re_search rx_filter query
     \<and> \<not> is_valid (validate_sparql_query query)
     \<and> (balanced query \<and> \<not> re_search rx_select query
          \<and> \<not> (re_search rx_where query \<and> \<not> re_search rx_where_data query)
          \<and> \<not> re_search rx_prefix_no_uri query \<and> \<not> re_search rx_prefix_open_uri query
        \<longrightarrow> validate_sparql_query query = empty_filter
            \<and> error (validate_sparql_query query) = ''Empty FILTER clause.'')"
proof -
  have f: "re_search rx_filter query"
    using filter_empty_is_filter assms by (rule re_search_mono)
  have k: "\<not> is_valid (keyword_checks query)"
    using f assms
    by (simp add: keyword_checks_def invalid_select_def invalid_where_def invalid_prefix_def
        incomplete_prefix_uri_def empty_filter_def)
  have v: "\<not> is_valid (validate_sparql_query query)"
    using k by (simp add: validate_sparql_query_def unbalanced_closing_def unclosed_opening_def
        split: sum.splits)
  have e: "validate_sparql_query query = empty_filter
            \<and> error (validate_sparql_query query) = ''Empty FILTER clause.''"
    if "balanced query" "\<not> re_search rx_select query"
      "\<not> (re_search rx_where query \<and> \<not> re_search rx_where_data query)"
      "\<not> re_search rx_prefix_no_uri query" "\<not> re_search rx_prefix_open_uri query"
  proof -
    have "check_brackets [] query = Inr []"
      using that(1) by (simp add: check_brackets_balanced)
    then have "validate_sparql_query query = keyword_checks query"
      by (simp add: validate_sparql_query_def)
    then show ?thesis
      using that f assms by (auto simp: keyword_checks_def empty_filter_def)
  qed
  show ?thesis using f v e by blast
qed

lemma empty_filter_query_facts:
  "re_search rx_filter_empty empty_filter_query"
  "check_brackets [] empty_filter_query = Inr []"
  "\<not> re_search rx_select empty_filter_query"
  "\<not> re_search rx_where empty_filter_query"
  "\<not> re_search rx_prefix_no_uri empty_filter_query"
  "\<not> re_search rx_prefix_open_uri empty_filter_query"
  "re_search rx_limit_offset empty_filter_query"
  by code_simp+

theorem empty_filter_rejected_witness:
  "re_search rx_filter_empty empty_filter_query
   \<and> balanced empty_filter_query
   \<and> re_search rx_limit_offset empty_filter_query
   \<and> validate_sparql_query empty_filter_query = empty_filter
   \<and> \<not> is_valid (validate_sparql_query empty_filter_query)"
proof -
  have b: "balanced empty_filter_query"
    using empty_filter_query_facts(2) by (simp add: check_brackets_balanced)
  show ?thesis
    using empty_filter_rejected[OF empty_filter_query_facts(1)] b empty_filter_query_facts
    by blast
qed

section \<open>Properties of the Query Validator: the quote check\<close>

lemma quote_verdicts_distinct:
  "unbalanced_double_quotes \<noteq> unbalanced_single_quotes"
  "unbalanced_double_quotes \<noteq> Valid"
  "unbalanced_single_quotes \<noteq> Valid"
  by (simp_all add: unbalanced_double_quotes_def unbalanced_single_quotes_def)

lemma quote_check_reached:
  "reaches_quote_check query \<Longrightarrow>
   validate_sparql_query query =
     (if odd_count (CHR 0x22) query
         \<and> \<not> re_search rx_lang_tag_quote query \<and> \<not> re_search rx_datatype_quote query
         \<and> odd_count (CHR 0x22) (remove_comments query)
      then unbalanced_double_quotes
      else if odd_count (CHR 0x27) query \<and> odd_count (CHR 0x27) (remove_comments query)
      then unbalanced_single_quotes
      else Valid)"
proof -
  assume r: "reaches_quote_check query"
  then have "validate_sparql_query query = keyword_checks query"
    by (simp add: reaches_quote_check_def validate_sparql_query_def)
  moreover have "\<not> re_search rx_select query"
    "\<not> (re_search rx_where query \<and> \<not> re_search rx_where_data query)"
    "\<not> re_search rx_prefix_no_uri query" "\<not> re_search rx_prefix_open_uri query"
    "\<not> (re_search rx_filter query \<and> re_search rx_filter_empty query)"
    "\<not> re_search rx_limit_offset query" "\<not> re_search rx_order_by query"
    "\<not> re_search rx_group_by query"
    using r unfolding reaches_quote_check_def by blast+
  ultimately show ?thesis
    unfolding keyword_checks_def by (simp only: if_False)
qed

text \<open>
  Claim C8, as stated: a query that reaches the quote check with an odd number of single
  quotes after the comments are stripped is invalid. It fails for a query whose string
  literal holds a \<open>#\<close>: the whole query has two single quotes, so the count after
  stripping is never looked at, and the query is valid.
\<close>

theorem hash_in_literal_accepted:
  "reaches_quote_check hash_in_literal
   \<and> odd_count (CHR 0x27) (remove_comments hash_in_literal)
   \<and> \<not> re_search spec_lang_tag_single_quote hash_in_literal
   \<and> \<not> re_search spec_datatype_single_quote hash_in_literal
   \<and> validate_sparql_query hash_in_literal = Valid"
proof -
  have r: "reaches_quote_check hash_in_literal"
    by code_simp
  have o: "odd_count (CHR 0x27) (remove_comments hash_in_literal)"
    "\<not> odd_count (CHR 0x27) hash_in_literal" "\<not> odd_count (CHR 0x22) hash_in_literal"
    by code_simp+
  have s: "\<not> re_search spec_lang_tag_single_quote hash_in_literal"
    "\<not> re_search spec_datatype_single_quote hash_in_literal"
    by code_simp+
  show ?thesis
    using r o s by (simp add: quote_check_reached)
qed

text \<open>
  Claim C8, amended: for every query that reaches the quote check, the verdict is
  \<open>Unbalanced double quotes.\<close> exactly when the number of double quotes in the whole
  query is odd, no double quote follows a language tag or a datatype annotation anywhere
  in the query, and the number of double quotes left after stripping the \<open>#\<close>-comments is
  odd too. Otherwise the verdict is valid when the number of single quotes in the whole
  query, or the number left after stripping the comments, is even; and it is
  \<open>Unbalanced single quotes.\<close> when both numbers are odd and no quote follows a language
  tag or a datatype annotation.
\<close>

theorem quote_check_verdict:
  assumes "reaches_quote_check query"
  shows "((validate_sparql_query query = unbalanced_double_quotes) =
           (odd_count (CHR 0x22) query
            \<and> \<not> re_search rx_lang_tag_quote query \<and> \<not> re_search rx_datatype_quote query
            \<and> odd_count (CHR 0x22) (remove_comments query)))
     \<and> (validate_sparql_query query \<noteq> unbalanced_double_quotes
          \<and> (\<not> odd_count (CHR 0x27) query \<or> \<not> odd_count (CHR 0x27) (remove_comments query))
        \<longrightarrow> validate_sparql_query query = Valid)
     \<and> (validate_sparql_query query \<noteq> unbalanced_double_quotes
          \<and> odd_count (CHR 0x27) query \<and> odd_count (CHR 0x27) (remove_comments query)
          \<and> \<not> re_search spec_lang_tag_single_quote query
          \<and> \<not> re_search spec_datatype_single_quote query
          \<and> \<not> re_search rx_lang_tag_quote query \<and> \<not> re_search rx_datatype_quote query
        \<longrightarrow> validate_sparql_query query = unbalanced_single_quotes
            \<and> error (validate_sparql_query query) = ''Unbalanced single quotes.'')"
proof -
  note v = quote_check_reached[OF assms]
  have a: "(validate_sparql_query query = unbalanced_double_quotes) =
           (odd_count (CHR 0x22) query
            \<and> \<not> re_search rx_lang_tag_quote query \<and> \<not> re_search rx_datatype_quote query
            \<and> odd_count (CHR 0x22) (remove_comments query))"
    using quote_verdicts_distinct by (auto simp: v simp del: re_search.simps)
  have b: "validate_sparql_query query \<noteq> unbalanced_double_quotes
          \<and> (\<not> odd_count (CHR 0x27) query \<or> \<not> odd_count (CHR 0x27) (remove_comments query))
        \<longrightarrow> validate_sparql_query query = Valid"
    by (auto simp: v simp del: re_search.simps)
  have c: "validate_sparql_query query \<noteq> unbalanced_double_quotes
          \<and> odd_count (CHR 0x27) query \<and> odd_count (CHR 0x27) (remove_comments query)
        \<longrightarrow> validate_sparql_query query = unbalanced_single_quotes
            \<and> error (validate_sparql_query query) = ''Unbalanced single quotes.''"
    by (auto simp: v unbalanced_single_quotes_def simp del: re_search.simps)
  show ?thesis using a b c by blast
qed

theorem quote_check_verdict_witness:
  "reaches_quote_check open_double_quote
   \<and> odd_count (CHR 0x22) open_double_quote
   \<and> odd_count (CHR 0x22) (remove_comments open_double_quote)
   \<and> validate_sparql_query open_double_quote = unbalanced_double_quotes
   \<and> reaches_quote_check hash_in_literal
   \<and> validate_sparql_query hash_in_literal = Valid
   \<and> reaches_quote_check open_single_quote
   \<and> validate_sparql_query open_single_quote = unbalanced_single_quotes"
proof -
  have r: "reaches_quote_check open_double_quote"
    by code_simp
  have o: "odd_count (CHR 0x22) open_double_quote"
    "odd_count (CHR 0x22) (remove_comments open_double_quote)"
    "\<not> re_search rx_lang_tag_quote open_double_quote"
    "\<not> re_search rx_datatype_quote open_double_quote"
    by code_simp+
  have r': "reaches_quote_check hash_in_literal"
    by code_simp
  have o': "\<not> odd_count (CHR 0x27) hash_in_literal" "\<not> odd_count (CHR 0x22) hash_in_literal"
    by code_simp+
  have r'': "reaches_quote_check open_single_quote"
    by code_simp
  have o'': "odd_count (CHR 0x27) open_single_quote"
    "odd_count (CHR 0x27) (remove_comments open_single_quote)"
    "\<not> odd_count (CHR 0x22) open_single_quote"
    "\<not> re_search spec_lang_tag_single_quote open_single_quote"
    "\<not> re_search spec_datatype_single_quote open_single_quote"
    "\<not> re_search rx_lang_tag_quote open_single_quote"
    "\<not> re_search rx_datatype_quote open_single_quote"
    by code_simp+
  have d: "validate_sparql_query open_double_quote = unbalanced_double_quotes"
    using quote_check_verdict[OF r] o by simp
  have "validate_sparql_query hash_in_literal \<noteq> unbalanced_double_quotes"
    using quote_check_verdict[OF r'] o' by simp
  then have v: "validate_sparql_query hash_in_literal = Valid"
    using quote_check_verdict[OF r'] o' by simp
  have "validate_sparql_query open_single_quote \<noteq> unbalanced_double_quotes"
    using quote_check_verdict[OF r''] o'' by simp
  then have s: "validate_sparql_query open_single_quote = unbalanced_single_quotes"
    using quote_check_verdict[OF r''] o'' by simp
  show ?thesis
    using r o d r' v r'' s by simp
qed

end
